theory Spec2Isabelle
  imports Complex_Main "HOL-Library.Char_ord"
begin

section \<open>Text primitives of the host language\<close>

text \<open>
  The program is TypeScript. A text is a \<open>string\<close>; a \<open>char\<close> stands for one code unit
  below 256 (so \<open>CHR 0xA0\<close> is the no-break space). The white space of \<open>trim\<close> and of
  the pattern class \<open>\s\<close> is the same set of code units: tab, line feed, vertical tab,
  form feed, carriage return, space and no-break space are its members below 256. Code
  units from 256 on are outside the model; the program treats the white space and the
  line separators among them like the ones here, and every other one like a letter.
\<close>

definition isWs :: "char \<Rightarrow> bool" where
  "isWs c \<longleftrightarrow>
     c = CHR 0x09 \<or> c = CHR 0x0A \<or> c = CHR 0x0B \<or> c = CHR 0x0C \<or> c = CHR 0x0D \<or>
     c = CHR '' '' \<or> c = CHR 0xA0"

text \<open>\<open>String.prototype.trim\<close>: white space is removed at both ends.\<close>

definition trim :: "string \<Rightarrow> string" where
  "trim s = rev (dropWhile isWs (rev (dropWhile isWs s)))"

text \<open>
  \<open>toUpperCase\<close>. The program applies it only to texts made of \<open>#\<close> and hexadecimal
  digits, where it changes the letters \<open>a\<close> to \<open>z\<close> and nothing else.
\<close>

definition upperTable :: "(char \<times> char) list" where
  "upperTable = zip ''abcdefghijklmnopqrstuvwxyz'' ''ABCDEFGHIJKLMNOPQRSTUVWXYZ''"

definition upperChar :: "char \<Rightarrow> char" where
  "upperChar c = (case map_of upperTable c of None \<Rightarrow> c | Some u \<Rightarrow> u)"

definition toUpperCase :: "string \<Rightarrow> string" where
  "toUpperCase s = map upperChar s"

definition isHexDigit :: "char \<Rightarrow> bool" where
  "isHexDigit c \<longleftrightarrow> c \<in> set ''0123456789abcdefABCDEF''"

section \<open>ColorModel: normalizeHex\<close>

text \<open>The pattern \<open>/^#[0-9a-fA-F]{6}$/\<close>: the whole text is \<open>#\<close> and six hexadecimal digits.\<close>

definition hexPattern :: "string \<Rightarrow> bool" where
  "hexPattern h \<longleftrightarrow>
     (case h of [] \<Rightarrow> False | c # ds \<Rightarrow> c = CHR ''#'' \<and> length ds = 6 \<and> list_all isHexDigit ds)"

text \<open>
  \<^verbatim>\<open>
  function normalizeHex(hex: string) {
    const h = hex.trim()
    if (/^#[0-9a-fA-F]{6}$/.test(h)) return h.toUpperCase()
    return '#000000'
  }
  \<close>
\<close>

definition normalizeHex :: "string \<Rightarrow> string" where
  "normalizeHex hex = (let h = trim hex in if hexPattern h then toUpperCase h else ''#000000'')"

section \<open>Numbers in text\<close>

text \<open>
  \<open>clamp(n, a, b)\<close> is \<open>Math.max(a, Math.min(b, n))\<close>; the program calls it on numbers
  that are never \<open>NaN\<close>.
\<close>

definition clamp :: "'a::linorder \<Rightarrow> 'a \<Rightarrow> 'a \<Rightarrow> 'a" where
  "clamp n a b = max a (min b n)"

text \<open>
  The digits of the radices the program uses (10 and 16): the value of a digit character,
  and the character \<open>toString\<close> writes for a digit value (lower case).
\<close>

definition digitTable :: "(char \<times> nat) list" where
  "digitTable = zip ''0123456789abcdefABCDEF''
     [0, 1, 2, 3, 4, 5, 6, 7, 8, 9, 10, 11, 12, 13, 14, 15, 10, 11, 12, 13, 14, 15]"

definition digitVal :: "char \<Rightarrow> nat" where
  "digitVal c = (case map_of digitTable c of None \<Rightarrow> 0 | Some d \<Rightarrow> d)"

definition isRadixDigit :: "nat \<Rightarrow> char \<Rightarrow> bool" where
  "isRadixDigit radix c = (case map_of digitTable c of None \<Rightarrow> False | Some d \<Rightarrow> d < radix)"

definition digitsVal :: "nat \<Rightarrow> string \<Rightarrow> nat" where
  "digitsVal radix ds = foldl (\<lambda>a c. a * radix + digitVal c) 0 ds"

text \<open>
  \<open>parseInt(s, radix)\<close> for radix 10 or 16: leading white space is skipped, a sign is
  read, with radix 16 a prefix \<open>0x\<close> or \<open>0X\<close> is dropped, and the longest run of digits
  is the value; \<open>None\<close> is \<open>NaN\<close> (no digit). The value is the exact integer: the
  program clamps every result into a range where the host's numbers are exact.
\<close>

definition parseInt :: "string \<Rightarrow> nat \<Rightarrow> int option" where
  "parseInt s radix =
     (let s1 = dropWhile isWs s;
          neg = (take 1 s1 = ''-'');
          s2 = (if take 1 s1 = ''-'' \<or> take 1 s1 = ''+'' then drop 1 s1 else s1);
          s3 = (if radix = 16 \<and> (take 2 s2 = ''0x'' \<or> take 2 s2 = ''0X'') then drop 2 s2 else s2);
          ds = takeWhile (isRadixDigit radix) s3
      in if ds = [] then None
         else Some ((if neg then - 1 else 1) * int (digitsVal radix ds)))"

text \<open>\<open>x || 0\<close> on the result of \<open>parseInt\<close>: \<open>NaN\<close> and zero give zero.\<close>

fun orZero :: "int option \<Rightarrow> int" where
  "orZero None = 0"
| "orZero (Some n) = n"

text \<open>
  The digits of \<open>n.toString(radix)\<close>, most significant first, for the radices 10 and 16
  (the host raises for a radix below 2 or above 36; the program never passes one).
\<close>

definition digitChar :: "nat \<Rightarrow> char" where
  "digitChar d = (if d < 16 then ''0123456789abcdef'' ! d else CHR ''?'')"

function natDigits :: "nat \<Rightarrow> nat \<Rightarrow> string" where
  "natDigits radix n =
     (if radix < 2 \<or> n < radix then [digitChar n]
      else natDigits radix (n div radix) @ [digitChar (n mod radix)])"
  by pat_completeness auto
termination
  by (relation "measure (\<lambda>(radix, n). n)") auto

declare natDigits.simps [simp del]

text \<open>\<open>n.toString(radix)\<close> of an integer, and of the result of \<open>parseInt\<close>.\<close>

definition toStringRadix :: "int \<Rightarrow> nat \<Rightarrow> string" where
  "toStringRadix n radix =
     (if n < 0 then ''-'' @ natDigits radix (nat (- n)) else natDigits radix (nat n))"

fun numToString :: "int option \<Rightarrow> string" where
  "numToString None = ''NaN''"
| "numToString (Some n) = toStringRadix n 10"

definition padStart :: "nat \<Rightarrow> char \<Rightarrow> string \<Rightarrow> string" where
  "padStart n c s = replicate (n - length s) c @ s"

text \<open>\<open>s.slice(a, b)\<close> for \<open>0 \<le> a \<le> b\<close>, and \<open>s.startsWith(p)\<close>.\<close>

definition slice :: "string \<Rightarrow> nat \<Rightarrow> nat \<Rightarrow> string" where
  "slice s a b = take (b - a) (drop a s)"

definition startsWith :: "string \<Rightarrow> string \<Rightarrow> bool" where
  "startsWith s p \<longleftrightarrow> take (length p) s = p"

section \<open>ColorModel: hexToRgb\<close>

text \<open>
  \<^verbatim>\<open>
  function hexToRgb(hex: string) {
    const h = normalizeHex(hex).slice(1)
    const r = parseInt(h.slice(0, 2), 16)
    const g = parseInt(h.slice(2, 4), 16)
    const b = parseInt(h.slice(4, 6), 16)
    return { r, g, b }
  }
  \<close>
\<close>

definition hexToRgb :: "string \<Rightarrow> int option \<times> int option \<times> int option" where
  "hexToRgb hex =
     (let h = drop 1 (normalizeHex hex)
      in (parseInt (slice h 0 2) 16, parseInt (slice h 2 4) 16, parseInt (slice h 4 6) 16))"

section \<open>The palette\<close>

text \<open>
  An entry of a palette file is \<open>{ name, index, hex }\<close>; a \<open>PaletteItem\<close> of the store
  has an \<open>id\<close> as well (the field \<open>ident\<close>). \<open>index\<close> is a number of the host; every
  producer clamps it into a finite range, and it is an exact rational here.
\<close>

record Entry =
  name :: string
  index :: rat
  hex :: string

record PaletteItem = Entry +
  ident :: string

section \<open>PaletteCodec: GPL text\<close>

text \<open>Replacing each white space run by one space: \<open>s.replace(/\s+/g, ' ')\<close>.\<close>

function collapseWs :: "string \<Rightarrow> string" where
  "collapseWs [] = []"
| "collapseWs (c # cs) =
     (if isWs c then CHR '' '' # collapseWs (dropWhile isWs cs) else c # collapseWs cs)"
  by pat_completeness auto
termination
  by (relation "measure length") (auto simp: length_dropWhile_le less_Suc_eq_le)

text \<open>\<open>lines.join('\n')\<close>.\<close>

fun joinLines :: "string list \<Rightarrow> string" where
  "joinLines [] = []"
| "joinLines [l] = l"
| "joinLines (l # m # ls) = l @ [CHR 0x0A] @ joinLines (m # ls)"

text \<open>
  \<^verbatim>\<open>
  function toGpl(items: PaletteItem[]) {
    const lines: string[] = []
    lines.push('GIMP Palette')
    lines.push('Name: Palette')
    lines.push('#')
    for (const it of items.slice().sort((a, b) => a.index - b.index)) {
      const { r, g, b } = hexToRgb(it.hex)
      const name = it.name.replace(/\s+/g, ' ').trim()
      lines.push(`${r.toString().padStart(3, ' ')} ${g.toString().padStart(3, ' ')} ${b.toString().padStart(3, ' ')}\t${name}`)
    }
    return lines.join('\n') + '\n'
  }
  \<close>
  \<open>gplLine\<close> is the body of the loop. The sort is stable and its comparator orders by
  \<open>index\<close>: it is \<open>sort_key index\<close>.
\<close>

definition gplLine :: "'a Entry_scheme \<Rightarrow> string" where
  "gplLine it =
     (case hexToRgb (hex it) of (r, g, b) \<Rightarrow>
        let nm = trim (collapseWs (name it))
        in padStart 3 CHR '' '' (numToString r) @ '' '' @
           padStart 3 CHR '' '' (numToString g) @ '' '' @
           padStart 3 CHR '' '' (numToString b) @ [CHR 0x09] @ nm)"

definition toGpl :: "'a Entry_scheme list \<Rightarrow> string" where
  "toGpl items =
     joinLines ([''GIMP Palette'', ''Name: Palette'', ''#''] @ map gplLine (sort_key index items))
     @ [CHR 0x0A]"

text \<open>\<open>text.replace(/\r\n/g, '\n')\<close> and \<open>split('\n')\<close>.\<close>

fun replaceCrLf :: "string \<Rightarrow> string" where
  "replaceCrLf (c # d # cs) =
     (if c = CHR 0x0D \<and> d = CHR 0x0A then CHR 0x0A # replaceCrLf cs
      else c # replaceCrLf (d # cs))"
| "replaceCrLf cs = cs"

fun splitOn :: "char \<Rightarrow> string \<Rightarrow> string list" where
  "splitOn sep [] = [[]]"
| "splitOn sep (c # cs) =
     (if c = sep then [] # splitOn sep cs
      else (case splitOn sep cs of [] \<Rightarrow> [[c]] | l # ls \<Rightarrow> (c # l) # ls))"

text \<open>
  The pattern \<open>/^(\d+)\s+(\d+)\s+(\d+)\s*(.*)$/\<close> on a trimmed line. Each group is
  greedy, and giving characters back never lets a failed match succeed: a run of digits
  must be followed by white space, a run of white space by a digit, and the last group
  has to reach the end of the line, where \<open>.\<close> stands for every character but a line
  terminator (line feed and carriage return, below 256). The result is the four groups.
\<close>

definition isDigit :: "char \<Rightarrow> bool" where
  "isDigit c \<longleftrightarrow> c \<in> set ''0123456789''"

definition isLineTerminator :: "char \<Rightarrow> bool" where
  "isLineTerminator c \<longleftrightarrow> c = CHR 0x0A \<or> c = CHR 0x0D"

definition gplPattern :: "string \<Rightarrow> (string \<times> string \<times> string \<times> string) option" where
  "gplPattern line =
     (let m1 = takeWhile isDigit line; r1 = dropWhile isDigit line;
          w1 = takeWhile isWs r1; r2 = dropWhile isWs r1;
          m2 = takeWhile isDigit r2; r3 = dropWhile isDigit r2;
          w2 = takeWhile isWs r3; r4 = dropWhile isWs r3;
          m3 = takeWhile isDigit r4; r5 = dropWhile isDigit r4;
          m4 = dropWhile isWs r5
      in if m1 = [] \<or> w1 = [] \<or> m2 = [] \<or> w2 = [] \<or> m3 = [] \<or> list_ex isLineTerminator m4
         then None
         else Some (m1, m2, m3, m4))"

text \<open>
  \<^verbatim>\<open>
  function parseGpl(text: string) {
    const lines = text.replace(/\r\n/g, '\n').split('\n')
    const out: Array<{ name: string; index: number; hex: string }> = []
    let idx = 0

    for (const raw of lines) {
      const line = raw.trim()
      if (!line) continue
      if (line.startsWith('#')) continue
      if (line.startsWith('GIMP Palette')) continue
      if (line.startsWith('Name:')) continue
      if (line.startsWith('Columns:')) continue

      const m = line.match(/^(\d+)\s+(\d+)\s+(\d+)\s*(.*)$/)
      if (!m) continue
      const r = clamp(parseInt(m[1], 10) || 0, 0, 255)
      const g = clamp(parseInt(m[2], 10) || 0, 0, 255)
      const b = clamp(parseInt(m[3], 10) || 0, 0, 255)
      const name = (m[4] || `Color ${idx}`).trim() || `Color ${idx}`
      const hex = `#${r.toString(16).padStart(2, '0')}${g.toString(16).padStart(2, '0')}${b.toString(16).padStart(2, '0')}`.toUpperCase()
      out.push({ name, index: idx, hex })
      idx += 1
    }
    return out
  }
  \<close>
  \<open>skipLine\<close> is the five \<open>continue\<close> tests on the trimmed line; \<open>gplEntry idx raw\<close> is
  the body of the loop at the counter \<open>idx\<close>, with \<open>None\<close> for \<open>continue\<close>;
  \<open>parseLines\<close> is the loop, carrying \<open>out\<close> and \<open>idx\<close>.
\<close>

definition skipLine :: "string \<Rightarrow> bool" where
  "skipLine line \<longleftrightarrow>
     line = [] \<or> startsWith line ''#'' \<or> startsWith line ''GIMP Palette'' \<or>
     startsWith line ''Name:'' \<or> startsWith line ''Columns:''"

definition gplHex :: "int \<Rightarrow> int \<Rightarrow> int \<Rightarrow> string" where
  "gplHex r g b =
     toUpperCase (''#'' @ padStart 2 CHR ''0'' (toStringRadix r 16)
       @ padStart 2 CHR ''0'' (toStringRadix g 16) @ padStart 2 CHR ''0'' (toStringRadix b 16))"

text \<open>
  \<open>colorName idx\<close> is the template \<open>Color ${idx}\<close>; the counter is written in plain
  decimal digits (it counts lines of the text, far below the range where the host writes
  a number with an exponent).
\<close>

definition colorName :: "nat \<Rightarrow> string" where
  "colorName idx = ''Color '' @ natDigits 10 idx"

definition gplEntry :: "nat \<Rightarrow> string \<Rightarrow> Entry option" where
  "gplEntry idx raw =
     (let line = trim raw in
      if skipLine line then None
      else case gplPattern line of
        None \<Rightarrow> None
      | Some (m1, m2, m3, m4) \<Rightarrow>
          let r = clamp (orZero (parseInt m1 10)) 0 255;
              g = clamp (orZero (parseInt m2 10)) 0 255;
              b = clamp (orZero (parseInt m3 10)) 0 255;
              t = trim (if m4 = [] then colorName idx else m4);
              nm = (if t = [] then colorName idx else t)
          in Some \<lparr>name = nm, index = of_nat idx, hex = gplHex r g b\<rparr>)"

fun parseLines :: "string list \<Rightarrow> Entry list \<Rightarrow> nat \<Rightarrow> Entry list" where
  "parseLines [] out idx = out"
| "parseLines (raw # rest) out idx =
     (case gplEntry idx raw of
        None \<Rightarrow> parseLines rest out idx
      | Some e \<Rightarrow> parseLines rest (out @ [e]) (idx + 1))"

definition gplLines :: "string \<Rightarrow> string list" where
  "gplLines text = splitOn (CHR 0x0A) (replaceCrLf text)"

definition parseGpl :: "string \<Rightarrow> Entry list" where
  "parseGpl text = parseLines (gplLines text) [] 0"

section \<open>PaletteCodec: JSON documents\<close>

text \<open>
  A number of the host is \<open>NaN\<close>, an infinity or a finite value; the finite values are
  exact rationals here (the two zeros are one value: the program only tests them for
  truth). A JSON document is the value \<open>JSON.parse\<close> returns; the members of an object
  are listed as in the text, and of two members with one key the later one counts.
\<close>

datatype jsnum = NaN | NegInf | Fin rat | PosInf

datatype json =
  JNull | JBool bool | JNum jsnum | JStr string | JArr "json list" | JObj "(string \<times> json) list"

text \<open>
  What the program leaves to the host: the text of a number (\<open>String(n)\<close>), the number
  of a text (\<open>Number(s)\<close>) and \<open>JSON.parse\<close>, with \<open>None\<close> for its \<open>SyntaxError\<close>.
  They are parameters of the model.
\<close>

record host =
  numberToString :: "jsnum \<Rightarrow> string"
  stringToNumber :: "string \<Rightarrow> jsnum"
  jsonParse :: "string \<Rightarrow> json option"

text \<open>
  The errors of a load: \<open>FormatError\<close> is \<open>throw new Error('Unknown JSON format')\<close>,
  \<open>TypeError\<close> and \<open>SyntaxError\<close> are raised by the host.
\<close>

datatype error = FormatError | TypeError | SyntaxError

definition member :: "(string \<times> json) list \<Rightarrow> string \<Rightarrow> json option" where
  "member kv k = map_of (rev kv) k"

text \<open>
  \<open>v.k\<close> for one of the keys the program reads (\<open>kind\<close>, \<open>items\<close>, \<open>name\<close>, \<open>index\<close>,
  \<open>hex\<close>): an object gives its member, every other value but \<open>null\<close> gives
  \<open>undefined\<close> (\<open>None\<close>), and on \<open>null\<close> the access raises \<open>TypeError\<close>.
\<close>

fun propOf :: "json \<Rightarrow> string \<Rightarrow> json option" where
  "propOf (JObj kv) k = member kv k"
| "propOf v k = None"

fun getProp :: "json \<Rightarrow> string \<Rightarrow> error + json option" where
  "getProp JNull k = Inl TypeError"
| "getProp v k = Inr (propOf v k)"

text \<open>Truth of a value, and \<open>v || d\<close>.\<close>

fun truthy :: "json option \<Rightarrow> bool" where
  "truthy None = False"
| "truthy (Some JNull) = False"
| "truthy (Some (JBool b)) = b"
| "truthy (Some (JNum n)) = (n \<noteq> NaN \<and> n \<noteq> Fin 0)"
| "truthy (Some (JStr s)) = (s \<noteq> [])"
| "truthy (Some (JArr xs)) = True"
| "truthy (Some (JObj kv)) = True"

fun orElse :: "json option \<Rightarrow> json \<Rightarrow> json" where
  "orElse None d = d"
| "orElse (Some v) d = (if truthy (Some v) then v else d)"

text \<open>
  \<open>String(v)\<close>. An array is joined with commas, \<open>null\<close> elements giving the empty
  text. An object gives \<open>[object Object]\<close>, unless it has a member \<open>toString\<close> of its
  own: a member of a JSON document is never a function, so neither \<open>toString\<close> nor
  \<open>valueOf\<close> yields a primitive value and the conversion raises \<open>TypeError\<close>.
\<close>

fun jsString :: "host \<Rightarrow> json \<Rightarrow> error + string"
  and joinElems :: "host \<Rightarrow> json list \<Rightarrow> error + string" where
  "jsString H JNull = Inr ''null''"
| "jsString H (JBool b) = Inr (if b then ''true'' else ''false'')"
| "jsString H (JNum n) = Inr (numberToString H n)"
| "jsString H (JStr s) = Inr s"
| "jsString H (JArr xs) = joinElems H xs"
| "jsString H (JObj kv) =
     (if member kv ''toString'' \<noteq> None then Inl TypeError else Inr ''[object Object]'')"
| "joinElems H [] = Inr []"
| "joinElems H (x # xs) =
     (case (if x = JNull then Inr [] else jsString H x) of
        Inl e \<Rightarrow> Inl e
      | Inr s \<Rightarrow>
          if xs = [] then Inr s
          else (case joinElems H xs of Inl e \<Rightarrow> Inl e | Inr r \<Rightarrow> Inr (s @ '','' @ r)))"

text \<open>
  \<open>Number(v)\<close>: \<open>undefined\<close> is \<open>NaN\<close>, \<open>null\<close> is 0, \<open>true\<close> is 1; an array or
  an object is converted to its text first (\<open>valueOf\<close> returns the object itself).
\<close>

fun jsNumber :: "host \<Rightarrow> json option \<Rightarrow> error + jsnum" where
  "jsNumber H None = Inr NaN"
| "jsNumber H (Some JNull) = Inr (Fin 0)"
| "jsNumber H (Some (JBool b)) = Inr (Fin (if b then 1 else 0))"
| "jsNumber H (Some (JNum n)) = Inr n"
| "jsNumber H (Some (JStr s)) = Inr (stringToNumber H s)"
| "jsNumber H (Some v) =
     (case jsString H v of Inl e \<Rightarrow> Inl e | Inr s \<Rightarrow> Inr (stringToNumber H s))"

text \<open>
  \<open>clamp(n || 0, 0, 999999)\<close>: \<open>NaN\<close> and zero give 0 before the clamp, and the
  infinities, which are true, are clamped to the bounds.
\<close>

fun clampIndex :: "jsnum \<Rightarrow> rat" where
  "clampIndex NaN = clamp 0 0 999999"
| "clampIndex (Fin q) = clamp q 0 999999"
| "clampIndex PosInf = 999999"
| "clampIndex NegInf = 0"

text \<open>
  The load handler, JSON branch:
  \<^verbatim>\<open>
    const data = JSON.parse(text) as PaletteFileV1
    if (data && data.kind === 'palette.v1' && Array.isArray(data.items)) {
      items = data.items.map((x) => ({
        id: makeId(),
        name: String(x.name || ''),
        index: clamp(Number(x.index) || 0, 0, 999999),
        hex: normalizeHex(String(x.hex || '#000000')),
      }))
      render()
      setStatus(`Loaded ${items.length} colors from JSON`)
      return
    }

    throw new Error('Unknown JSON format')
  \<close>
  \<open>makeId()\<close> draws on the clock and a random source: \<open>ids k\<close> is what its call for the
  element at position \<open>k\<close> returns. \<open>decodeItem\<close> is the function mapped over the
  array, \<open>decodeItems\<close> the \<open>map\<close>: the first element that raises ends it.
\<close>

definition decodeItem :: "host \<Rightarrow> string \<Rightarrow> json \<Rightarrow> error + PaletteItem" where
  "decodeItem H newId x =
     (case getProp x ''name'' of Inl e \<Rightarrow> Inl e | Inr vn \<Rightarrow>
      case jsString H (orElse vn (JStr [])) of Inl e \<Rightarrow> Inl e | Inr nm \<Rightarrow>
      case jsNumber H (propOf x ''index'') of Inl e \<Rightarrow> Inl e | Inr n \<Rightarrow>
      case jsString H (orElse (propOf x ''hex'') (JStr ''#000000'')) of Inl e \<Rightarrow> Inl e | Inr hx \<Rightarrow>
        Inr \<lparr>name = nm, index = clampIndex n, hex = normalizeHex hx, ident = newId\<rparr>)"

fun decodeItems :: "host \<Rightarrow> (nat \<Rightarrow> string) \<Rightarrow> nat \<Rightarrow> json list \<Rightarrow> error + PaletteItem list" where
  "decodeItems H ids k [] = Inr []"
| "decodeItems H ids k (x # xs) =
     (case decodeItem H (ids k) x of
        Inl e \<Rightarrow> Inl e
      | Inr it \<Rightarrow> (case decodeItems H ids (Suc k) xs of Inl e \<Rightarrow> Inl e | Inr its \<Rightarrow> Inr (it # its)))"

fun isArray :: "json option \<Rightarrow> bool" where
  "isArray (Some (JArr xs)) = True"
| "isArray v = False"

fun elements :: "json option \<Rightarrow> json list" where
  "elements (Some (JArr xs)) = xs"
| "elements v = []"

definition decodeJson :: "host \<Rightarrow> (nat \<Rightarrow> string) \<Rightarrow> json \<Rightarrow> error + PaletteItem list" where
  "decodeJson H ids data =
     (if truthy (Some data) \<and> propOf data ''kind'' = Some (JStr ''palette.v1'')
         \<and> isArray (propOf data ''items'')
      then decodeItems H ids 0 (elements (propOf data ''items''))
      else Inl FormatError)"

text \<open>
  The save handler, JSON branch: the document handed to \<open>JSON.stringify\<close>.
  \<^verbatim>\<open>
    const payload: PaletteFileV1 = {
      kind: 'palette.v1',
      items: items
        .slice()
        .sort((a, b) => a.index - b.index)
        .map((x) => ({ name: x.name, index: x.index, hex: x.hex })),
    }
  \<close>
  \<open>JSON.parse\<close> of the text \<open>JSON.stringify\<close> writes for it gives this document back
  (its values are texts and finite numbers).
\<close>

definition encodeItem :: "'a Entry_scheme \<Rightarrow> json" where
  "encodeItem x =
     JObj [(''name'', JStr (name x)), (''index'', JNum (Fin (index x))), (''hex'', JStr (hex x))]"

definition encodeJson :: "'a Entry_scheme list \<Rightarrow> json" where
  "encodeJson its =
     JObj [(''kind'', JStr ''palette.v1''), (''items'', JArr (map encodeItem (sort_key index its)))]"

section \<open>PaletteStore: the application state\<close>

text \<open>
  The state the handlers read and write: the collection \<open>items\<close>, the status line
  (modelled by what it reports) and the three input fields of the form.
\<close>

datatype status =
  Ready | Updated rat | Added rat | LoadedGpl nat | LoadedJson nat | LoadError error

record app =
  items :: "PaletteItem list"
  statusMsg :: status
  inName :: string
  inIndex :: string
  inColor :: string

text \<open>
  \<open>toLowerCase\<close> on a file name, where only the letters \<open>A\<close> to \<open>Z\<close> can turn into a
  character of the suffix \<open>.gpl\<close>; \<open>s.endsWith(p)\<close>.
\<close>

definition lowerChar :: "char \<Rightarrow> char" where
  "lowerChar c = (case map_of (map (\<lambda>(l, u). (u, l)) upperTable) c of None \<Rightarrow> c | Some l \<Rightarrow> l)"

definition toLowerCase :: "string \<Rightarrow> string" where
  "toLowerCase s = map lowerChar s"

definition endsWith :: "string \<Rightarrow> string \<Rightarrow> bool" where
  "endsWith s p \<longleftrightarrow> length p \<le> length s \<and> drop (length s - length p) s = p"

text \<open>
  The load handler:
  \<^verbatim>\<open>
  fileInput.addEventListener('change', async () => {
    ...
    const text = await f.text()
    const name = f.name.toLowerCase()

    try {
      if (name.endsWith('.gpl')) {
        const parsed = parseGpl(text)
        items = parsed.map((x) => ({ id: makeId(), name: x.name, index: x.index, hex: normalizeHex(x.hex) }))
        render()
        setStatus(`Loaded ${items.length} colors from GPL`)
        return
      }
      ... (the JSON branch above)
    } catch (e) {
      setStatus(`Load error: ${(e as Error).message}`)
    }
  })
  \<close>
  \<open>gplItems\<close> is the collection of the GPL branch, \<open>decodeFile\<close> what the \<open>try\<close> block
  computes before it assigns \<open>items\<close>, and \<open>loadFile\<close> the handler.
\<close>

definition gplItems :: "(nat \<Rightarrow> string) \<Rightarrow> string \<Rightarrow> PaletteItem list" where
  "gplItems ids text =
     map (\<lambda>(k, x). \<lparr>name = name x, index = index x, hex = normalizeHex (hex x), ident = ids k\<rparr>)
       (enumerate 0 (parseGpl text))"

definition decodeFile :: "host \<Rightarrow> (nat \<Rightarrow> string) \<Rightarrow> string \<Rightarrow> string \<Rightarrow> error + PaletteItem list" where
  "decodeFile H ids fname text =
     (if endsWith (toLowerCase fname) ''.gpl'' then Inr (gplItems ids text)
      else case jsonParse H text of
             None \<Rightarrow> Inl SyntaxError
           | Some data \<Rightarrow> decodeJson H ids data)"

definition loadFile :: "host \<Rightarrow> (nat \<Rightarrow> string) \<Rightarrow> string \<Rightarrow> string \<Rightarrow> app \<Rightarrow> app" where
  "loadFile H ids fname text st =
     (case decodeFile H ids fname text of
        Inl e \<Rightarrow> st\<lparr>statusMsg := LoadError e\<rparr>
      | Inr its \<Rightarrow>
          st\<lparr>items := its,
             statusMsg := (if endsWith (toLowerCase fname) ''.gpl'' then LoadedGpl (length its)
                           else LoadedJson (length its))\<rparr>)"

text \<open>
  \<^verbatim>\<open>
  function addOrUpdate() {
    const name = inName.value.trim() || ''
    const index = clamp(parseInt(inIndex.value || '0', 10) || 0, 0, 999999)
    const hex = normalizeHex(inColor.value)

    const existing = items.find((x) => x.index === index)
    if (existing) {
      existing.name = name
      existing.hex = hex
      setStatus(`Updated index ${index}`)
    } else {
      items.push({ id: makeId(), name, index, hex })
      setStatus(`Added index ${index}`)
    }

    render()

    inIndex.value = String(items.length)
  }
  \<close>
  \<open>fieldName\<close>, \<open>fieldIndex\<close> and \<open>fieldHex\<close> are the three constants; \<open>find\<close> returns
  the first item with the index, an object of its own in the array, so writing its fields
  is \<open>updateFirst\<close>; \<open>newId\<close> is what \<open>makeId()\<close> returns when it is called.
\<close>

fun updateFirst :: "('a \<Rightarrow> bool) \<Rightarrow> ('a \<Rightarrow> 'a) \<Rightarrow> 'a list \<Rightarrow> 'a list" where
  "updateFirst p f [] = []"
| "updateFirst p f (x # xs) = (if p x then f x # xs else x # updateFirst p f xs)"

definition fieldName :: "app \<Rightarrow> string" where
  "fieldName st = trim (inName st)"

definition fieldIndex :: "app \<Rightarrow> rat" where
  "fieldIndex st =
     of_int (clamp (orZero (parseInt (if inIndex st = [] then ''0'' else inIndex st) 10)) 0 999999)"

definition fieldHex :: "app \<Rightarrow> string" where
  "fieldHex st = normalizeHex (inColor st)"

definition addOrUpdate :: "string \<Rightarrow> app \<Rightarrow> app" where
  "addOrUpdate newId st =
     (let nm = fieldName st; idx = fieldIndex st; hx = fieldHex st;
          items' = (case find (\<lambda>x. index x = idx) (items st) of
                      Some existing \<Rightarrow>
                        updateFirst (\<lambda>x. index x = idx) (\<lambda>x. x\<lparr>name := nm, hex := hx\<rparr>) (items st)
                    | None \<Rightarrow> items st @ [\<lparr>name = nm, index = idx, hex = hx, ident = newId\<rparr>])
      in st\<lparr>items := items',
            statusMsg := (if find (\<lambda>x. index x = idx) (items st) = None then Added idx else Updated idx),
            inIndex := natDigits 10 (length items')\<rparr>)"

section \<open>GridLayout: the geometry of renderPng\<close>

text \<open>
  \<^verbatim>\<open>
    const cols = Math.max(1, rowLen)
    const rows = Math.max(1, Math.ceil(items.length / cols))

    const canvas = document.createElement('canvas')
    canvas.width = cols * swW + Math.max(0, cols - 1) * gapH
    canvas.height = rows * swH + Math.max(0, rows - 1) * gapV
    ...
    for (let i = 0; i < items.length; i += 1) {
      const it = items[i]
      const x = (i % cols) * (swW + gapH)
      const y = Math.floor(i / cols) * (swH + gapV)

      ctx.fillStyle = it.hex
      ctx.fillRect(x, y, swW, swH)
      ...
    }
  \<close>
  The sizes are integers (the caller clamps parsed integers and scales them by an
  integer). The division is the host's, on exact rationals here; \<open>%\<close> is the remainder
  with the sign of the dividend. \<open>gridCols\<close> and \<open>gridRows\<close> are \<open>cols\<close> and \<open>rows\<close>;
  a \<open>Cell\<close> is one \<open>fillRect\<close> with its fill colour and the label drawn in it. The colour
  of the label and the font are left out.
\<close>

definition jsRem :: "int \<Rightarrow> int \<Rightarrow> int" where
  "jsRem a b = sgn a * (\<bar>a\<bar> mod \<bar>b\<bar>)"

record Cell =
  cellX :: int
  cellY :: int
  cellW :: int
  cellH :: int
  fillStyle :: string
  label :: string

record Canvas =
  width :: int
  height :: int
  cells :: "Cell list"

definition gridCols :: "int \<Rightarrow> int" where
  "gridCols rowLen = max 1 rowLen"

definition gridRows :: "nat \<Rightarrow> int \<Rightarrow> int" where
  "gridRows n rowLen = max 1 (ceiling (rat_of_nat n / rat_of_int (gridCols rowLen)))"

definition renderPng :: "'a Entry_scheme list \<Rightarrow> int \<Rightarrow> int \<Rightarrow> int \<Rightarrow> int \<Rightarrow> int \<Rightarrow> Canvas" where
  "renderPng its rowLen swW swH gapH gapV =
     (let cols = gridCols rowLen;
          rows = gridRows (length its) rowLen
      in \<lparr>width = cols * swW + max 0 (cols - 1) * gapH,
          height = rows * swH + max 0 (rows - 1) * gapV,
          cells = map (\<lambda>i. \<lparr>cellX = jsRem (int i) cols * (swW + gapH),
                               cellY = floor (rat_of_nat i / rat_of_int cols) * (swH + gapV),
                               cellW = swW, cellH = swH,
                               fillStyle = hex (its ! i), label = name (its ! i)\<rparr>)
                      [0..<length its]\<rparr>)"

section \<open>Notions of the statements and proofs\<close>

text \<open>
  The canonical form of a colour: \<open>#\<close> and six hexadecimal digits in upper case. The
  \<open>(name, index, hex)\<close> triple of an entry. A document of the shape the decoder accepts: an
  object whose \<open>kind\<close> is \<open>palette.v1\<close> and whose \<open>items\<close> is an array.
\<close>

definition canonicalHex :: "string \<Rightarrow> bool" where
  "canonicalHex h \<longleftrightarrow>
     (case h of [] \<Rightarrow> False
      | c # ds \<Rightarrow> c = CHR ''#'' \<and> length ds = 6 \<and> list_all (\<lambda>d. d \<in> set ''0123456789ABCDEF'') ds)"

definition triple :: "'a Entry_scheme \<Rightarrow> string \<times> rat \<times> string" where
  "triple x = (name x, index x, hex x)"

definition paletteDoc :: "json \<Rightarrow> bool" where
  "paletteDoc d \<longleftrightarrow>
     (case d of
        JObj kv \<Rightarrow>
          member kv ''kind'' = Some (JStr ''palette.v1'') \<and> isArray (member kv ''items'')
      | _ \<Rightarrow> False)"

text \<open>
  A line of a GPL text is accepted when it passes the five skip tests and matches the
  pattern, and malformed when it passes the skip tests and fails the pattern.
\<close>

definition acceptedLine :: "string \<Rightarrow> bool" where
  "acceptedLine raw \<longleftrightarrow> \<not> skipLine (trim raw) \<and> gplPattern (trim raw) \<noteq> None"

definition malformedLine :: "string \<Rightarrow> bool" where
  "malformedLine raw \<longleftrightarrow> \<not> skipLine (trim raw) \<and> gplPattern (trim raw) = None"

text \<open>
  For the proofs about GPL text: the characters of a text that are not white space; a
  text whose white space is single spaces; the name as \<open>toGpl\<close> writes it; a colour
  channel; a channel padded to three columns; an upper case hexadecimal digit; an entry
  as \<open>parseGpl\<close> produces it; the entries renumbered as a second parse finds them; the
  header lines; a line without its final carriage return.
\<close>

definition ink :: "string \<Rightarrow> string" where
  "ink s = filter (\<lambda>c. \<not> isWs c) s"

fun collapsed :: "string \<Rightarrow> bool" where
  "collapsed [] = True"
| "collapsed [c] = (isWs c \<longrightarrow> c = CHR '' '')"
| "collapsed (c # d # cs) = ((isWs c \<longrightarrow> c = CHR '' '' \<and> \<not> isWs d) \<and> collapsed (d # cs))"

definition normName :: "string \<Rightarrow> string" where
  "normName n = trim (collapseWs n)"

definition byte :: "int \<Rightarrow> bool" where
  "byte r \<longleftrightarrow> 0 \<le> r \<and> r \<le> 255"

definition pad3 :: "int \<Rightarrow> string" where
  "pad3 r = padStart 3 CHR '' '' (natDigits 10 (nat r))"

definition hexUp :: "nat \<Rightarrow> char" where
  "hexUp d = upperChar (digitChar d)"

definition goodEntry :: "'a Entry_scheme \<Rightarrow> bool" where
  "goodEntry e \<longleftrightarrow> ink (name e) \<noteq> [] \<and> (\<exists>r g b. byte r \<and> byte g \<and> byte b \<and> hex e = gplHex r g b)"

fun indexedFrom :: "nat \<Rightarrow> 'a Entry_scheme list \<Rightarrow> bool" where
  "indexedFrom k [] = True"
| "indexedFrom k (e # es) = (index e = of_nat k \<and> indexedFrom (Suc k) es)"

fun numbered :: "nat \<Rightarrow> 'a Entry_scheme list \<Rightarrow> Entry list" where
  "numbered k [] = []"
| "numbered k (e # es) =
     \<lparr>name = normName (name e), index = of_nat k, hex = hex e\<rparr> # numbered (Suc k) es"

definition gplHeader :: "string list" where
  "gplHeader = [''GIMP Palette'', ''Name: Palette'', ''#'']"

definition stripCr :: "string \<Rightarrow> string" where
  "stripCr l = (if l \<noteq> [] \<and> last l = CHR 0x0D then butlast l else l)"

text \<open>
  For the worked examples: a host whose conversions the examples never consult, and a
  GPL text of three lines, the second one malformed and ended by a carriage return.
\<close>

definition sampleHost :: host where
  "sampleHost = \<lparr>numberToString = (\<lambda>n. []), stringToNumber = (\<lambda>s. NaN), jsonParse = (\<lambda>t. None)\<rparr>"

definition sampleGpl :: string where
  "sampleGpl = ''255   0   0'' @ [CHR 0x09] @ ''Red'' @ [CHR 0x0A] @ ''foo bar'' @ [CHR 0x0D, CHR 0x0A]
     @ ''0 0 300''"

text \<open>
  A document of the accepted shape whose second element is \<open>null\<close>, and a state with
  three items, two of them with the index 5, and a form filled in for the index 5.
\<close>

definition sampleDoc :: json where
  "sampleDoc = JObj [(''kind'', JStr ''palette.v1''),
                     (''items'', JArr [JObj [(''name'', JStr ''Red'')], JNull])]"

definition sampleStore :: app where
  "sampleStore =
     \<lparr>items = [\<lparr>name = ''Red'', index = 5, hex = ''#FF0000'', ident = ''a''\<rparr>,
               \<lparr>name = ''Green'', index = 3, hex = ''#00FF00'', ident = ''b''\<rparr>,
               \<lparr>name = ''Blue'', index = 5, hex = ''#0000FF'', ident = ''c''\<rparr>],
      statusMsg = Ready, inName = '' Sky '', inIndex = ''5'', inColor = ''#00aaff''\<rparr>"

section \<open>Facts\<close>

subsection \<open>Trimming, upper case and normalizeHex\<close>

lemma trim_id:
  assumes "s \<noteq> []" and "\<not> isWs (hd s)" and "\<not> isWs (last s)"
  shows "trim s = s"
proof -
  from assms(1,2) have a: "dropWhile isWs s = s"
    by (cases s) simp_all
  from assms(1,3) have "dropWhile isWs (rev s) = rev s"
    by (cases "rev s") (simp_all add: last_rev hd_rev)
  with a show ?thesis
    by (simp add: trim_def)
qed

lemma length_trim_le_dropWhile: "length (trim s) \<le> length (dropWhile isWs s)"
proof -
  have "length (dropWhile isWs (rev (dropWhile isWs s))) \<le> length (rev (dropWhile isWs s))"
    by (rule length_dropWhile_le)
  then show ?thesis
    by (simp add: trim_def)
qed

lemma dropWhile_same_length:
  assumes "length (dropWhile P xs) = length xs"
  shows "dropWhile P xs = xs"
proof (cases xs)
  case Nil
  then show ?thesis by simp
next
  case (Cons x ys)
  have "length (dropWhile P ys) \<le> length ys"
    by (rule length_dropWhile_le)
  with assms Cons have "\<not> P x"
    by (auto split: if_splits)
  with Cons show ?thesis by simp
qed

lemma trim_same_length:
  assumes "length (trim s) = length s"
  shows "trim s = s"
proof -
  let ?d = "dropWhile isWs s"
  have l1: "length (trim s) \<le> length ?d"
    by (rule length_trim_le_dropWhile)
  have l2: "length ?d \<le> length s"
    by (rule length_dropWhile_le)
  from assms l1 l2 have e: "length ?d = length s"
    by simp
  then have d: "?d = s"
    by (rule dropWhile_same_length)
  from assms d have "length (dropWhile isWs (rev s)) = length (rev s)"
    by (simp add: trim_def)
  then have "dropWhile isWs (rev s) = rev s"
    by (rule dropWhile_same_length)
  with d show ?thesis
    by (simp add: trim_def)
qed

lemma isHexDigit_not_ws:
  assumes "isHexDigit c"
  shows "\<not> isWs c"
proof -
  have "\<forall>d\<in>set ''0123456789abcdefABCDEF''. \<not> isWs d"
    by (simp add: isWs_def)
  with assms show ?thesis
    unfolding isHexDigit_def by blast
qed

lemma upperChar_idem: "upperChar (upperChar c) = upperChar c"
  by (simp add: upperChar_def upperTable_def)

lemma upperChar_hex:
  assumes "isHexDigit c"
  shows "isHexDigit (upperChar c)"
proof -
  have "\<forall>d\<in>set ''0123456789abcdefABCDEF''. isHexDigit (upperChar d)"
    by (simp add: isHexDigit_def upperChar_def upperTable_def)
  with assms show ?thesis
    unfolding isHexDigit_def by blast
qed

lemma upperChar_hash: "upperChar c = CHR ''#'' \<longleftrightarrow> c = CHR ''#''"
  by (simp add: upperChar_def upperTable_def)

lemma upperChar_zero: "upperChar c = CHR ''0'' \<longleftrightarrow> c = CHR ''0''"
  by (simp add: upperChar_def upperTable_def)

lemma toUpperCase_idem: "toUpperCase (toUpperCase s) = toUpperCase s"
  by (simp add: toUpperCase_def upperChar_idem)

lemma hexPattern_trim:
  assumes "hexPattern h"
  shows "trim h = h"
proof -
  from assms obtain ds where h: "h = CHR ''#'' # ds" and n: "length ds = 6"
    and a: "list_all isHexDigit ds"
    by (auto simp: hexPattern_def split: list.splits)
  from n have ne: "ds \<noteq> []"
    by auto
  with a have "isHexDigit (last ds)"
    by (simp add: list_all_iff)
  then have "\<not> isWs (last h)"
    using h ne by (simp add: isHexDigit_not_ws)
  moreover have "\<not> isWs (hd h)"
    using h by (simp add: isWs_def)
  ultimately show ?thesis
    using h by (intro trim_id) simp_all
qed

lemma hexPattern_upper: "hexPattern h \<Longrightarrow> hexPattern (toUpperCase h)"
  by (auto simp: hexPattern_def toUpperCase_def upperChar_hash list_all_iff upperChar_hex
      split: list.splits)

lemma toUpperCase_black: "toUpperCase s = ''#000000'' \<Longrightarrow> s = ''#000000''"
  by (auto simp: toUpperCase_def upperChar_hash upperChar_zero)

lemma hexPattern_black: "hexPattern ''#000000''"
  by (simp add: hexPattern_def isHexDigit_def)

lemma normalizeHex_pattern: "hexPattern (normalizeHex s)"
  by (simp add: normalizeHex_def Let_def hexPattern_upper hexPattern_black)

lemma normalizeHex_idem: "normalizeHex (normalizeHex s) = normalizeHex s"
proof (cases "hexPattern (trim s)")
  case True
  then have p: "hexPattern (toUpperCase (trim s))"
    by (rule hexPattern_upper)
  then have "trim (toUpperCase (trim s)) = toUpperCase (trim s)"
    by (rule hexPattern_trim)
  with True p show ?thesis
    by (simp add: normalizeHex_def toUpperCase_idem)
next
  case False
  have "trim ''#000000'' = ''#000000''"
    using hexPattern_black by (rule hexPattern_trim)
  with False show ?thesis
    by (simp add: normalizeHex_def hexPattern_black toUpperCase_def upperChar_def upperTable_def)
qed

lemma normalizeHex_upper_iff: "normalizeHex s = toUpperCase s \<longleftrightarrow> hexPattern s"
proof
  assume p: "hexPattern s"
  then have "trim s = s"
    by (rule hexPattern_trim)
  with p show "normalizeHex s = toUpperCase s"
    by (simp add: normalizeHex_def)
next
  assume e: "normalizeHex s = toUpperCase s"
  show "hexPattern s"
  proof (cases "hexPattern (trim s)")
    case True
    with e have "toUpperCase (trim s) = toUpperCase s"
      by (simp add: normalizeHex_def)
    then have "length (trim s) = length s"
      by (metis length_map toUpperCase_def)
    then have "trim s = s"
      by (rule trim_same_length)
    with True show ?thesis
      by simp
  next
    case False
    with e have "toUpperCase s = ''#000000''"
      by (simp add: normalizeHex_def)
    then have "s = ''#000000''"
      by (rule toUpperCase_black)
    then show ?thesis
      by (simp add: hexPattern_black)
  qed
qed

subsection \<open>Decimal and hexadecimal digits\<close>

lemma below10: "(d::nat) < 10 \<Longrightarrow> d \<in> set [0, 1, 2, 3, 4, 5, 6, 7, 8, 9]"
  by (simp; arith)

lemma below16: "(d::nat) < 16 \<Longrightarrow> d \<in> set [0, 1, 2, 3, 4, 5, 6, 7, 8, 9, 10, 11, 12, 13, 14, 15]"
  by (simp; arith)

lemma digitChar_dec:
  assumes "d < 10"
  shows "isDigit (digitChar d)" and "digitVal (digitChar d) = d"
proof -
  have "\<forall>e\<in>set [0, 1, 2, 3, 4, 5, 6, 7, 8, 9]. isDigit (digitChar e) \<and> digitVal (digitChar e) = e"
    by (simp add: isDigit_def digitChar_def digitVal_def digitTable_def)
  with below10 [OF assms] show "isDigit (digitChar d)" and "digitVal (digitChar d) = d"
    by blast+
qed

lemma isDigit_facts:
  assumes "isDigit c"
  shows "\<not> isWs c" and "isRadixDigit 10 c" and "c \<noteq> CHR ''-''" and "c \<noteq> CHR ''+''"
    and "\<not> isLineTerminator c"
proof -
  have "\<forall>d\<in>set ''0123456789''. \<not> isWs d \<and> isRadixDigit 10 d \<and> d \<noteq> CHR ''-'' \<and> d \<noteq> CHR ''+''
      \<and> \<not> isLineTerminator d"
    by (simp add: isWs_def isRadixDigit_def digitTable_def isLineTerminator_def)
  with assms show "\<not> isWs c" and "isRadixDigit 10 c" and "c \<noteq> CHR ''-''" and "c \<noteq> CHR ''+''"
    and "\<not> isLineTerminator c"
    unfolding isDigit_def by blast+
qed

lemma natDigits_dec: "list_all isDigit (natDigits 10 n) \<and> natDigits 10 n \<noteq> []"
proof (induction "10::nat" n rule: natDigits.induct)
  case (1 n)
  show ?case
  proof (cases "n < 10")
    case True
    then show ?thesis
      by (simp add: natDigits.simps [of 10 n] digitChar_dec)
  next
    case False
    with 1 show ?thesis
      by (simp add: natDigits.simps [of 10 n] digitChar_dec)
  qed
qed

lemma digitsVal_snoc: "digitsVal radix (ds @ [c]) = digitsVal radix ds * radix + digitVal c"
  by (simp add: digitsVal_def)

lemma digitsVal_natDigits: "digitsVal 10 (natDigits 10 n) = n"
proof (induction "10::nat" n rule: natDigits.induct)
  case (1 n)
  show ?case
  proof (cases "n < 10")
    case True
    then show ?thesis
      by (simp add: natDigits.simps [of 10 n] digitChar_dec digitsVal_def)
  next
    case False
    with 1 have "digitsVal 10 (natDigits 10 (n div 10)) = n div 10"
      by simp
    with False show ?thesis
      by (simp add: natDigits.simps [of 10 n] digitsVal_snoc digitChar_dec)
  qed
qed

lemma parseInt_digits:
  assumes "ds \<noteq> []" and "list_all isDigit ds"
  shows "parseInt ds 10 = Some (int (digitsVal 10 ds))"
proof -
  from assms obtain c cs where ds: "ds = c # cs" and c: "isDigit c"
    by (cases ds) auto
  have w: "dropWhile isWs ds = ds"
    using ds isDigit_facts(1) [OF c] by simp
  have t: "takeWhile (isRadixDigit 10) ds = ds"
    using assms(2) by (simp add: list_all_iff isDigit_facts(2))
  have t1: "take 1 ds = [c]"
    using ds by simp
  show ?thesis
    unfolding parseInt_def Let_def w t1
    using isDigit_facts(3,4) [OF c] assms(1) by (simp add: t)
qed

lemma parseInt_natDigits: "parseInt (natDigits 10 n) 10 = Some (int n)"
  using natDigits_dec [of n] by (simp add: parseInt_digits digitsVal_natDigits)

lemma hexUp_facts:
  assumes "d < 16"
  shows "isRadixDigit 16 (hexUp d)" and "digitVal (hexUp d) = d" and "isHexDigit (hexUp d)"
    and "\<not> isWs (hexUp d)" and "hexUp d \<noteq> CHR ''-''" and "hexUp d \<noteq> CHR ''+''"
    and "hexUp d \<noteq> CHR ''x''" and "hexUp d \<noteq> CHR ''X''" and "upperChar (hexUp d) = hexUp d"
proof -
  have "\<forall>e\<in>set [0, 1, 2, 3, 4, 5, 6, 7, 8, 9, 10, 11, 12, 13, 14, 15].
      isRadixDigit 16 (hexUp e) \<and> digitVal (hexUp e) = e \<and> isHexDigit (hexUp e)
      \<and> \<not> isWs (hexUp e) \<and> hexUp e \<noteq> CHR ''-'' \<and> hexUp e \<noteq> CHR ''+''
      \<and> hexUp e \<noteq> CHR ''x'' \<and> hexUp e \<noteq> CHR ''X'' \<and> upperChar (hexUp e) = hexUp e"
    by (simp add: hexUp_def digitChar_def upperChar_def upperTable_def isRadixDigit_def
        digitVal_def digitTable_def isHexDigit_def isWs_def)
  with below16 [OF assms]
  show "isRadixDigit 16 (hexUp d)" and "digitVal (hexUp d) = d" and "isHexDigit (hexUp d)"
    and "\<not> isWs (hexUp d)" and "hexUp d \<noteq> CHR ''-''" and "hexUp d \<noteq> CHR ''+''"
    and "hexUp d \<noteq> CHR ''x''" and "hexUp d \<noteq> CHR ''X''" and "upperChar (hexUp d) = hexUp d"
    by blast+
qed

lemma natDigits_hex:
  assumes "n < 256"
  shows "padStart 2 CHR ''0'' (natDigits 16 n) = [digitChar (n div 16), digitChar (n mod 16)]"
proof (cases "n < 16")
  case True
  then show ?thesis
    by (simp add: natDigits.simps [of 16 n] padStart_def digitChar_def)
next
  case False
  with assms have "n div 16 < 16"
    by simp
  with False show ?thesis
    by (simp add: natDigits.simps [of 16 n] natDigits.simps [of 16 "n div 16"] padStart_def)
qed

lemma pad2_hex:
  assumes "0 \<le> r" and "r \<le> 255"
  shows "padStart 2 CHR ''0'' (toStringRadix r 16)
    = [digitChar (nat r div 16), digitChar (nat r mod 16)]"
  using assms by (simp add: toStringRadix_def natDigits_hex)

lemma gplHex_digits:
  assumes "0 \<le> r" "r \<le> 255" "0 \<le> g" "g \<le> 255" "0 \<le> b" "b \<le> 255"
  shows "gplHex r g b = CHR ''#'' # [hexUp (nat r div 16), hexUp (nat r mod 16),
    hexUp (nat g div 16), hexUp (nat g mod 16), hexUp (nat b div 16), hexUp (nat b mod 16)]"
  using assms by (simp add: gplHex_def pad2_hex toUpperCase_def hexUp_def upperChar_hash)

lemma parseInt_hex2:
  assumes "x < 16" and "y < 16"
  shows "parseInt [hexUp x, hexUp y] 16 = Some (int (x * 16 + y))"
  using hexUp_facts [OF assms(1)] hexUp_facts [OF assms(2)]
  by (simp add: parseInt_def digitsVal_def)

lemma byte_split:
  assumes "0 \<le> r" and "r \<le> 255"
  shows "nat r div 16 < 16" and "nat r mod 16 < 16" and "int (nat r div 16 * 16 + nat r mod 16) = r"
  using assms by auto

lemma gplHex_pattern:
  assumes "0 \<le> r" "r \<le> 255" "0 \<le> g" "g \<le> 255" "0 \<le> b" "b \<le> 255"
  shows "hexPattern (gplHex r g b)"
  using assms
  by (simp add: gplHex_digits hexPattern_def hexUp_facts(3) byte_split(1,2))

lemma gplHex_upper:
  assumes "0 \<le> r" "r \<le> 255" "0 \<le> g" "g \<le> 255" "0 \<le> b" "b \<le> 255"
  shows "toUpperCase (gplHex r g b) = gplHex r g b"
  by (simp add: gplHex_def toUpperCase_idem)

lemma normalizeHex_gplHex:
  assumes "0 \<le> r" "r \<le> 255" "0 \<le> g" "g \<le> 255" "0 \<le> b" "b \<le> 255"
  shows "normalizeHex (gplHex r g b) = gplHex r g b"
proof -
  have p: "hexPattern (gplHex r g b)"
    using assms by (rule gplHex_pattern)
  then have "trim (gplHex r g b) = gplHex r g b"
    by (rule hexPattern_trim)
  with p show ?thesis
    by (simp add: normalizeHex_def gplHex_upper [OF assms])
qed

lemma hexToRgb_gplHex:
  assumes "0 \<le> r" "r \<le> 255" "0 \<le> g" "g \<le> 255" "0 \<le> b" "b \<le> 255"
  shows "hexToRgb (gplHex r g b) = (Some r, Some g, Some b)"
proof -
  have n: "normalizeHex (gplHex r g b) = gplHex r g b"
    using assms by (rule normalizeHex_gplHex)
  show ?thesis
    unfolding hexToRgb_def n Let_def
    using assms
    by (simp add: gplHex_digits slice_def parseInt_hex2 byte_split del: of_nat_add of_nat_mult)
qed

subsection \<open>White space\<close>

lemma trim_Nil: "trim [] = []"
  by (simp add: trim_def)

lemma trim_split: "\<exists>a b. s = a @ trim s @ b"
proof -
  let ?d = "dropWhile isWs s"
  have "rev (dropWhile isWs (rev ?d)) @ rev (takeWhile isWs (rev ?d))
      = rev (takeWhile isWs (rev ?d) @ dropWhile isWs (rev ?d))"
    by (simp only: rev_append)
  also have "\<dots> = rev (rev ?d)"
    by (simp only: takeWhile_dropWhile_id)
  finally have "?d = trim s @ rev (takeWhile isWs (rev ?d))"
    by (simp add: trim_def)
  moreover have "s = takeWhile isWs s @ ?d"
    by simp
  ultimately show ?thesis
    by metis
qed

lemma last_suffix: "xs = p @ e \<Longrightarrow> e \<noteq> [] \<Longrightarrow> last xs = last e"
  by simp

lemma trim_ends:
  assumes "trim s \<noteq> []"
  shows "\<not> isWs (hd (trim s))" and "\<not> isWs (last (trim s))"
proof -
  let ?d = "dropWhile isWs s"
  let ?e = "dropWhile isWs (rev ?d)"
  from assms have e: "?e \<noteq> []"
    by (simp add: trim_def)
  have d: "?d \<noteq> []"
  proof
    assume "?d = []"
    then have "?e = []"
      by (simp only: rev.simps(1) dropWhile.simps(1))
    with e show False ..
  qed
  have "\<not> isWs (hd ?e)"
    using e by (rule hd_dropWhile)
  then show "\<not> isWs (last (trim s))"
    using e by (simp add: trim_def last_rev)
  have "\<not> isWs (hd ?d)"
    using d by (rule hd_dropWhile)
  have "\<exists>p. rev ?d = p @ ?e"
    by (metis takeWhile_dropWhile_id)
  then obtain p where p: "rev ?d = p @ ?e" ..
  from p e have "last (rev ?d) = last ?e"
    by (rule last_suffix)
  then have "hd ?d = last ?e"
    by (simp only: last_rev)
  moreover have "hd (trim s) = last ?e"
    unfolding trim_def by (rule hd_rev)
  ultimately show "\<not> isWs (hd (trim s))"
    using \<open>\<not> isWs (hd ?d)\<close> by simp
qed

lemma trim_idem: "trim (trim s) = trim s"
proof (cases "trim s = []")
  case True
  then show ?thesis by (simp add: trim_Nil)
next
  case False
  then show ?thesis
    by (intro trim_id trim_ends)
qed

lemma ink_dropWhile: "ink (dropWhile isWs s) = ink s"
  by (induction s) (simp_all add: ink_def)

lemma ink_rev: "ink (rev s) = rev (ink s)"
  by (simp add: ink_def rev_filter)

lemma ink_trim: "ink (trim s) = ink s"
  by (simp add: trim_def ink_rev ink_dropWhile)

lemma ink_collapseWs: "ink (collapseWs s) = ink s"
proof (induction s rule: collapseWs.induct)
  case 1
  then show ?case by simp
next
  case (2 c cs)
  show ?case
  proof (cases "isWs c")
    case True
    with 2 have "ink (collapseWs (dropWhile isWs cs)) = ink cs"
      by (simp add: ink_dropWhile)
    with True show ?thesis
      by (simp add: ink_def isWs_def)
  next
    case False
    with 2 show ?thesis
      by (simp add: ink_def)
  qed
qed

lemma ink_normName: "ink (normName n) = ink n"
  by (simp add: normName_def ink_trim ink_collapseWs)

lemma ink_nonempty: "ink s \<noteq> [] \<Longrightarrow> s \<noteq> []"
  by (auto simp: ink_def)

lemma ink_head: "s \<noteq> [] \<Longrightarrow> \<not> isWs (hd s) \<Longrightarrow> ink s \<noteq> []"
  by (cases s) (simp_all add: ink_def)

lemma dropWhile_head: "dropWhile P xs = [] \<or> \<not> P (hd (dropWhile P xs))"
  using hd_dropWhile [of P xs] by blast

lemma collapseWs_head:
  "xs = [] \<or> \<not> isWs (hd xs) \<Longrightarrow> collapseWs xs = [] \<or> \<not> isWs (hd (collapseWs xs))"
  by (cases xs) auto

lemma collapsed_space: "collapsed r \<Longrightarrow> r = [] \<or> \<not> isWs (hd r) \<Longrightarrow> collapsed (CHR '' '' # r)"
  by (cases r) simp_all

lemma collapsed_ink: "collapsed r \<Longrightarrow> \<not> isWs c \<Longrightarrow> collapsed (c # r)"
  by (cases r) simp_all

lemma collapsed_collapseWs: "collapsed (collapseWs s)"
proof (induction s rule: collapseWs.induct)
  case 1
  then show ?case by simp
next
  case (2 c cs)
  show ?case
  proof (cases "isWs c")
    case True
    let ?r = "collapseWs (dropWhile isWs cs)"
    from 2 True have ih: "collapsed ?r"
      by simp
    have "?r = [] \<or> \<not> isWs (hd ?r)"
      using dropWhile_head by (rule collapseWs_head)
    with ih have "collapsed (CHR '' '' # ?r)"
      by (rule collapsed_space)
    with True show ?thesis
      by simp
  next
    case False
    with 2 have ih: "collapsed (collapseWs cs)"
      by simp
    then have "collapsed (c # collapseWs cs)"
      using False by (rule collapsed_ink)
    with False show ?thesis
      by simp
  qed
qed

lemma collapsed_tl: "collapsed (c # cs) \<Longrightarrow> collapsed cs"
  by (cases cs) simp_all

lemma collapsed_append: "collapsed (xs @ ys) \<Longrightarrow> collapsed xs \<and> collapsed ys"
proof (induction xs rule: collapsed.induct)
  case 1
  then show ?case by simp
next
  case (2 c)
  then show ?case
    by (cases ys) (auto dest: collapsed_tl)
next
  case (3 c d cs)
  then show ?case
    by auto
qed

lemma collapsed_trim: "collapsed s \<Longrightarrow> collapsed (trim s)"
proof -
  assume c: "collapsed s"
  obtain a b where "s = a @ trim s @ b"
    using trim_split by blast
  with c have "collapsed (a @ trim s @ b)"
    by simp
  then show ?thesis
    by (blast dest: collapsed_append)
qed

lemma collapsed_id: "collapsed s \<Longrightarrow> collapseWs s = s"
proof (induction s rule: collapsed.induct)
  case 1
  then show ?case by simp
next
  case (2 c)
  then show ?case by simp
next
  case (3 c d cs)
  then show ?case
    by auto
qed

lemma collapsed_no_terminator: "collapsed s \<Longrightarrow> \<not> list_ex isLineTerminator s"
proof (induction s rule: collapsed.induct)
  case 1
  then show ?case by simp
next
  case (2 c)
  then show ?case
    by (auto simp: isLineTerminator_def isWs_def)
next
  case (3 c d cs)
  then show ?case
    by (auto simp: isLineTerminator_def isWs_def)
qed

lemma collapsed_normName: "collapsed (normName n)"
  by (simp add: normName_def collapsed_trim collapsed_collapseWs)

lemma normName_idem: "normName (normName n) = normName n"
proof -
  have "collapseWs (normName n) = normName n"
    using collapsed_normName by (rule collapsed_id)
  then show ?thesis
    by (simp add: normName_def [of "normName n"]) (simp add: normName_def trim_idem)
qed

lemma normName_ends:
  assumes "ink n \<noteq> []"
  shows "normName n \<noteq> []" and "\<not> isWs (hd (normName n))" and "\<not> isWs (last (normName n))"
proof -
  from assms have "ink (normName n) \<noteq> []"
    by (simp add: ink_normName)
  then show ne: "normName n \<noteq> []"
    by (rule ink_nonempty)
  then have "trim (collapseWs n) \<noteq> []"
    by (simp add: normName_def)
  then show "\<not> isWs (hd (normName n))" and "\<not> isWs (last (normName n))"
    unfolding normName_def by (rule trim_ends)+
qed

subsection \<open>The pattern on a line that toGpl wrote\<close>

lemma span_block:
  assumes "\<forall>x\<in>set xs. P x" and "ys = [] \<or> \<not> P (hd ys)"
  shows "takeWhile P (xs @ ys) = xs" and "dropWhile P (xs @ ys) = ys"
proof -
  from assms(2) have t: "takeWhile P ys = []" and d: "dropWhile P ys = ys"
    by (cases ys; simp)+
  from assms(1) show "takeWhile P (xs @ ys) = xs"
    by (simp add: takeWhile_append2 t)
  from assms(1) show "dropWhile P (xs @ ys) = ys"
    by (simp add: dropWhile_append2 d)
qed

lemma isWs_not_digit: "isWs c \<Longrightarrow> \<not> isDigit c"
  using isDigit_facts(1) by blast

lemma gplPattern_fields:
  assumes d1: "d1 \<noteq> []" "\<forall>c\<in>set d1. isDigit c"
    and w1: "w1 \<noteq> []" "\<forall>c\<in>set w1. isWs c"
    and d2: "d2 \<noteq> []" "\<forall>c\<in>set d2. isDigit c"
    and w2: "w2 \<noteq> []" "\<forall>c\<in>set w2. isWs c"
    and d3: "d3 \<noteq> []" "\<forall>c\<in>set d3. isDigit c"
    and w3: "w3 \<noteq> []" "\<forall>c\<in>set w3. isWs c"
    and m4: "m4 = [] \<or> \<not> isWs (hd m4)" "\<not> list_ex isLineTerminator m4"
  shows "gplPattern (d1 @ w1 @ d2 @ w2 @ d3 @ w3 @ m4) = Some (d1, d2, d3, m4)"
proof -
  have hw: "\<not> isDigit (hd (w @ r))" if "w \<noteq> []" "\<forall>c\<in>set w. isWs c" for w r
    using that by (cases w) (simp_all add: isWs_not_digit)
  have hd: "\<not> isWs (hd (d @ r))" if "d \<noteq> []" "\<forall>c\<in>set d. isDigit c" for d r
    using that by (cases d) (simp_all add: isDigit_facts(1))
  have s1: "takeWhile isDigit (d1 @ w1 @ d2 @ w2 @ d3 @ w3 @ m4) = d1"
    "dropWhile isDigit (d1 @ w1 @ d2 @ w2 @ d3 @ w3 @ m4) = w1 @ d2 @ w2 @ d3 @ w3 @ m4"
    by (intro span_block d1 disjI2 hw w1)+
  have s2: "takeWhile isWs (w1 @ d2 @ w2 @ d3 @ w3 @ m4) = w1"
    "dropWhile isWs (w1 @ d2 @ w2 @ d3 @ w3 @ m4) = d2 @ w2 @ d3 @ w3 @ m4"
    by (intro span_block w1 disjI2 hd d2)+
  have s3: "takeWhile isDigit (d2 @ w2 @ d3 @ w3 @ m4) = d2"
    "dropWhile isDigit (d2 @ w2 @ d3 @ w3 @ m4) = w2 @ d3 @ w3 @ m4"
    by (intro span_block d2 disjI2 hw w2)+
  have s4: "takeWhile isWs (w2 @ d3 @ w3 @ m4) = w2"
    "dropWhile isWs (w2 @ d3 @ w3 @ m4) = d3 @ w3 @ m4"
    by (intro span_block w2 disjI2 hd d3)+
  have s5: "takeWhile isDigit (d3 @ w3 @ m4) = d3"
    "dropWhile isDigit (d3 @ w3 @ m4) = w3 @ m4"
    by (intro span_block d3 disjI2 hw w3)+
  have s6: "dropWhile isWs (w3 @ m4) = m4"
    by (intro span_block w3 m4)
  show ?thesis
    unfolding gplPattern_def Let_def s1 s2 s3 s4 s5 s6
    using d1(1) w1(1) d2(1) w2(1) d3(1) m4(2) by simp
qed

lemma pad3_form: "\<exists>k. pad3 r = replicate k CHR '' '' @ natDigits 10 (nat r)"
  unfolding pad3_def padStart_def by blast

lemma gplLine_form:
  assumes "hex it = gplHex r g b" and "byte r" and "byte g" and "byte b"
  shows "gplLine it = pad3 r @ '' '' @ pad3 g @ '' '' @ pad3 b @ [CHR 0x09] @ normName (name it)"
proof -
  from assms have "hexToRgb (hex it) = (Some r, Some g, Some b)"
    by (simp add: byte_def hexToRgb_gplHex)
  with assms(2-4) show ?thesis
    by (simp add: gplLine_def pad3_def normName_def toStringRadix_def byte_def)
qed

lemma trim_spaces: "trim (replicate k CHR '' '' @ s) = trim s"
proof -
  have "dropWhile isWs (replicate k CHR '' '' @ s) = dropWhile isWs s"
    by (rule dropWhile_append2) (simp add: isWs_def)
  then show ?thesis
    by (simp add: trim_def)
qed

lemma skipLine_digit:
  assumes "isDigit c"
  shows "\<not> skipLine (c # cs)"
proof -
  have "\<forall>d\<in>set ''0123456789''. d \<noteq> CHR ''#'' \<and> d \<noteq> CHR ''G'' \<and> d \<noteq> CHR ''N'' \<and> d \<noteq> CHR ''C''"
    by simp
  with assms have "c \<noteq> CHR ''#'' \<and> c \<noteq> CHR ''G'' \<and> c \<noteq> CHR ''N'' \<and> c \<noteq> CHR ''C''"
    unfolding isDigit_def by blast
  then show ?thesis
    by (simp add: skipLine_def startsWith_def)
qed

lemma clamp_byte: "byte r \<Longrightarrow> clamp r 0 255 = r"
  by (simp add: clamp_def byte_def)

lemma byte_clamp: "byte (clamp r 0 255)"
  by (simp add: clamp_def byte_def)

lemma gplEntry_gplLine:
  assumes h: "hex it = gplHex r g b" and r: "byte r" and g: "byte g" and b: "byte b"
    and n: "ink (name it) \<noteq> []"
  shows "gplEntry k (gplLine it) = Some \<lparr>name = normName (name it), index = of_nat k, hex = hex it\<rparr>"
proof -
  let ?nm = "normName (name it)"
  let ?dr = "natDigits 10 (nat r)" and ?dg = "natDigits 10 (nat g)" and ?db = "natDigits 10 (nat b)"
  obtain kr kg kb where p: "pad3 r = replicate kr CHR '' '' @ ?dr"
    "pad3 g = replicate kg CHR '' '' @ ?dg" "pad3 b = replicate kb CHR '' '' @ ?db"
    using pad3_form by metis
  let ?w1 = "'' '' @ replicate kg CHR '' ''" and ?w2 = "'' '' @ replicate kb CHR '' ''"
  let ?body = "?dr @ ?w1 @ ?dg @ ?w2 @ ?db @ [CHR 0x09] @ ?nm"
  have line: "gplLine it = replicate kr CHR '' '' @ ?body"
    by (simp add: gplLine_form [OF h r g b] p)
  have nm: "?nm \<noteq> []" "\<not> isWs (hd ?nm)" "\<not> isWs (last ?nm)"
    using n by (rule normName_ends)+
  have dig: "?dr \<noteq> []" "\<forall>c\<in>set ?dr. isDigit c" "?dg \<noteq> []" "\<forall>c\<in>set ?dg. isDigit c"
    "?db \<noteq> []" "\<forall>c\<in>set ?db. isDigit c"
    using natDigits_dec by (simp_all add: list_all_iff)
  obtain c cs where dr: "?dr = c # cs" and c: "isDigit c"
    using dig(1,2) by (cases ?dr) auto
  have "trim ?body = ?body"
  proof (rule trim_id)
    show "?body \<noteq> []"
      using dig(1) by simp
    show "\<not> isWs (hd ?body)"
      using dr c by (simp add: isDigit_facts(1))
    show "\<not> isWs (last ?body)"
      using nm by simp
  qed
  then have t: "trim (gplLine it) = ?body"
    by (simp only: line trim_spaces)
  have s: "\<not> skipLine ?body"
    using skipLine_digit [OF c] by (simp add: dr)
  have m: "gplPattern ?body = Some (?dr, ?dg, ?db, ?nm)"
  proof (rule gplPattern_fields)
    show "\<not> list_ex isLineTerminator ?nm"
      using collapsed_normName by (rule collapsed_no_terminator)
    show "?nm = [] \<or> \<not> isWs (hd ?nm)"
      using nm(2) by simp
  qed (use dig in \<open>simp_all add: isWs_def\<close>)
  have v: "clamp (orZero (parseInt ?dr 10)) 0 255 = r"
    "clamp (orZero (parseInt ?dg 10)) 0 255 = g"
    "clamp (orZero (parseInt ?db 10)) 0 255 = b"
    using r g b by (simp_all add: parseInt_natDigits clamp_byte) (simp_all add: byte_def)
  have tn: "trim ?nm = ?nm"
    by (simp add: normName_def trim_idem)
  show ?thesis
    unfolding gplEntry_def Let_def t m
    using s nm(1) by (simp add: v tn h)
qed

subsection \<open>The parse loop\<close>

lemma parseLines_out: "parseLines ls out idx = out @ parseLines ls [] idx"
proof (induction ls arbitrary: out idx)
  case Nil
  then show ?case by simp
next
  case (Cons raw rest)
  show ?case
  proof (cases "gplEntry idx raw")
    case None
    with Cons [of out idx] show ?thesis by simp
  next
    case (Some e)
    with Cons [of "out @ [e]" "idx + 1"] Cons [of "[e]" "idx + 1"] show ?thesis by simp
  qed
qed

lemma parseLines_Some:
  "gplEntry idx raw = Some e \<Longrightarrow> parseLines (raw # rest) [] idx = e # parseLines rest [] (Suc idx)"
  using parseLines_out [of rest "[e]" "Suc idx"] by simp

lemma gplEntry_accepted: "gplEntry idx raw \<noteq> None \<longleftrightarrow> acceptedLine raw"
  by (auto simp: gplEntry_def acceptedLine_def Let_def split: option.splits)

lemma gplPattern_rest:
  assumes "gplPattern line = Some (m1, m2, m3, m4)"
  shows "m4 = [] \<or> \<not> isWs (hd m4)"
proof -
  from assms obtain r5 where "m4 = dropWhile isWs r5"
    by (auto simp: gplPattern_def Let_def split: if_splits)
  then show ?thesis
    using dropWhile_head [of isWs r5] by simp
qed

lemma ink_colorName: "ink (colorName idx) \<noteq> []"
  by (simp add: colorName_def ink_def isWs_def)

lemma gplEntry_good:
  assumes "gplEntry idx raw = Some e"
  shows "index e = of_nat idx" and "goodEntry e"
proof -
  from assms obtain m1 m2 m3 m4 where m: "gplPattern (trim raw) = Some (m1, m2, m3, m4)"
    and e: "e = \<lparr>name = (let t = trim (if m4 = [] then colorName idx else m4)
                          in if t = [] then colorName idx else t),
                 index = of_nat idx,
                 hex = gplHex (clamp (orZero (parseInt m1 10)) 0 255)
                   (clamp (orZero (parseInt m2 10)) 0 255) (clamp (orZero (parseInt m3 10)) 0 255)\<rparr>"
    by (auto simp: gplEntry_def Let_def split: if_splits option.splits)
  from e show "index e = of_nat idx"
    by simp
  let ?s = "if m4 = [] then colorName idx else m4"
  have "ink ?s \<noteq> []"
    using gplPattern_rest [OF m] by (auto simp: ink_colorName ink_head)
  then have i: "ink (trim ?s) \<noteq> []"
    unfolding ink_trim .
  then have "trim ?s \<noteq> []"
    by (rule ink_nonempty)
  with e have "name e = trim ?s"
    by (simp add: Let_def)
  with i have "ink (name e) \<noteq> []"
    by simp
  moreover have "\<exists>r g b. byte r \<and> byte g \<and> byte b \<and> hex e = gplHex r g b"
    using e byte_clamp by (intro exI conjI) (simp_all)
  ultimately show "goodEntry e"
    by (simp add: goodEntry_def)
qed

lemma indexedFrom_nth: "indexedFrom k es \<Longrightarrow> j < length es \<Longrightarrow> index (es ! j) = of_nat (k + j)"
proof (induction es arbitrary: k j)
  case Nil
  then show ?case by simp
next
  case (Cons e es)
  show ?case
  proof (cases j)
    case 0
    with Cons.prems show ?thesis by simp
  next
    case (Suc i)
    with Cons.prems have "indexedFrom (Suc k) es" and "i < length es"
      by simp_all
    then have "index (es ! i) = of_nat (Suc k + i)"
      by (rule Cons.IH)
    with Suc show ?thesis by simp
  qed
qed

lemma indexedFrom_lower: "indexedFrom k es \<Longrightarrow> \<forall>x\<in>set es. of_nat k \<le> index x"
proof (induction es arbitrary: k)
  case Nil
  then show ?case by simp
next
  case (Cons e es)
  from Cons.prems have "indexedFrom (Suc k) es"
    by simp
  then have "\<forall>x\<in>set es. of_nat (Suc k) \<le> index x"
    by (rule Cons.IH)
  then have "\<forall>x\<in>set es. of_nat k \<le> index x"
    by (auto intro: order_trans [rotated])
  with Cons.prems show ?case
    by simp
qed

lemma indexedFrom_sorted: "indexedFrom k es \<Longrightarrow> sorted (map index es)"
proof (induction es arbitrary: k)
  case Nil
  then show ?case by simp
next
  case (Cons e es)
  from Cons.prems have s: "indexedFrom (Suc k) es" and e: "index e = of_nat k"
    by simp_all
  from s have "\<forall>x\<in>set es. of_nat (Suc k) \<le> index x"
    by (rule indexedFrom_lower)
  then have "\<forall>x\<in>set es. index e \<le> index x"
    unfolding e by (auto intro: order_trans [rotated])
  with Cons.IH [OF s] show ?case
    by simp
qed

lemma parseLines_index: "indexedFrom k (parseLines ls [] k)"
proof (induction ls arbitrary: k)
  case Nil
  then show ?case by simp
next
  case (Cons raw rest)
  show ?case
  proof (cases "gplEntry k raw")
    case None
    with Cons [of k] show ?thesis by simp
  next
    case (Some e)
    then have p: "parseLines (raw # rest) [] k = e # parseLines rest [] (Suc k)"
      by (rule parseLines_Some)
    have "index e = of_nat k"
      using Some by (rule gplEntry_good)
    with Cons [of "Suc k"] show ?thesis
      unfolding p by simp
  qed
qed

lemma parseLines_good: "\<forall>e\<in>set (parseLines ls [] k). goodEntry e"
proof (induction ls arbitrary: k)
  case Nil
  then show ?case by simp
next
  case (Cons raw rest)
  show ?case
  proof (cases "gplEntry k raw")
    case None
    with Cons [of k] show ?thesis by simp
  next
    case (Some e)
    then have p: "parseLines (raw # rest) [] k = e # parseLines rest [] (Suc k)"
      by (rule parseLines_Some)
    have "goodEntry e"
      using Some by (rule gplEntry_good)
    with Cons [of "Suc k"] show ?thesis
      unfolding p by simp
  qed
qed

lemma parseLines_accepted:
  "length (parseLines ls [] k) = length (filter acceptedLine ls)
   \<and> (\<forall>j<length (filter acceptedLine ls).
        gplEntry (k + j) (filter acceptedLine ls ! j) = Some (parseLines ls [] k ! j))"
proof (induction ls arbitrary: k)
  case Nil
  then show ?case by simp
next
  case (Cons raw rest)
  show ?case
  proof (cases "gplEntry k raw")
    case None
    then have "\<not> acceptedLine raw"
      using gplEntry_accepted [of k raw] by simp
    with None Cons [of k] show ?thesis by simp
  next
    case (Some e)
    then have a: "acceptedLine raw"
      using gplEntry_accepted [of k raw] by simp
    have p: "parseLines (raw # rest) [] k = e # parseLines rest [] (Suc k)"
      using Some by (rule parseLines_Some)
    have "gplEntry (k + j) (filter acceptedLine (raw # rest) ! j)
        = Some (parseLines (raw # rest) [] k ! j)"
      if "j < length (filter acceptedLine (raw # rest))" for j
    proof (cases j)
      case 0
      with a Some show ?thesis
        unfolding p by simp
    next
      case (Suc i)
      with that a have "i < length (filter acceptedLine rest)"
        by simp
      with Cons [of "Suc k"] have "gplEntry (Suc k + i) (filter acceptedLine rest ! i)
          = Some (parseLines rest [] (Suc k) ! i)"
        by blast
      with a Suc show ?thesis
        unfolding p by simp
    qed
    with a Cons [of "Suc k"] show ?thesis
      unfolding p by simp
  qed
qed

subsection \<open>Parsing the text that toGpl wrote\<close>

lemma replaceCrLf_id: "CHR 0x0D \<notin> set s \<Longrightarrow> replaceCrLf s = s"
  by (induction s rule: replaceCrLf.induct) auto

lemma splitOn_line: "sep \<notin> set l \<Longrightarrow> splitOn sep (l @ sep # rest) = l # splitOn sep rest"
proof (induction l)
  case Nil
  then show ?case by simp
next
  case (Cons c l)
  then show ?case by auto
qed

lemma splitOn_concat:
  "\<forall>l\<in>set ls. sep \<notin> set l \<Longrightarrow> splitOn sep (concat (map (\<lambda>l. l @ [sep]) ls)) = ls @ [[]]"
proof (induction ls)
  case Nil
  then show ?case by simp
next
  case (Cons l ls)
  then show ?case
    by (simp add: splitOn_line)
qed

lemma joinLines_newline:
  "ls \<noteq> [] \<Longrightarrow> joinLines ls @ [CHR 0x0A] = concat (map (\<lambda>l. l @ [CHR 0x0A]) ls)"
  by (induction ls rule: joinLines.induct) simp_all

lemma natDigits_plain: "c \<in> set (natDigits 10 n) \<Longrightarrow> \<not> isLineTerminator c"
  using natDigits_dec [of n] by (simp add: list_all_iff isDigit_facts(5))

lemma pad3_plain:
  assumes "c \<in> set (pad3 r)"
  shows "\<not> isLineTerminator c"
proof -
  from assms have "c = CHR '' '' \<or> c \<in> set (natDigits 10 (nat r))"
    by (auto simp: pad3_def padStart_def)
  then show ?thesis
  proof
    assume "c = CHR '' ''"
    then show ?thesis by (simp add: isLineTerminator_def)
  next
    assume "c \<in> set (natDigits 10 (nat r))"
    then show ?thesis by (rule natDigits_plain)
  qed
qed

lemma gplLine_plain:
  assumes "goodEntry e" and "c \<in> set (gplLine e)"
  shows "\<not> isLineTerminator c"
proof -
  from assms(1) obtain r g b where h: "hex e = gplHex r g b" and b: "byte r" "byte g" "byte b"
    by (auto simp: goodEntry_def)
  have "\<not> list_ex isLineTerminator (normName (name e))"
    using collapsed_normName by (rule collapsed_no_terminator)
  then have n: "\<forall>x\<in>set (normName (name e)). \<not> isLineTerminator x"
    by (simp add: list_ex_iff)
  from assms(2) have "c \<in> set (pad3 r) \<or> c \<in> set (pad3 g) \<or> c \<in> set (pad3 b)
      \<or> c = CHR '' '' \<or> c = CHR 0x09 \<or> c \<in> set (normName (name e))"
    unfolding gplLine_form [OF h b] by auto
  with n show ?thesis
    by (auto simp: pad3_plain) (simp_all add: isLineTerminator_def)
qed

lemma gplHeader_plain: "l \<in> set gplHeader \<Longrightarrow> c \<in> set l \<Longrightarrow> \<not> isLineTerminator c"
  by (auto simp: gplHeader_def isLineTerminator_def)

lemma toGpl_concat:
  assumes "sorted (map index es)"
  shows "toGpl es = concat (map (\<lambda>l. l @ [CHR 0x0A]) (gplHeader @ map gplLine es))"
proof -
  from assms have "sort_key index es = es"
    by (rule sort_key_id_if_sorted)
  then have "toGpl es = joinLines (gplHeader @ map gplLine es) @ [CHR 0x0A]"
    by (simp add: toGpl_def gplHeader_def)
  also have "\<dots> = concat (map (\<lambda>l. l @ [CHR 0x0A]) (gplHeader @ map gplLine es))"
    by (rule joinLines_newline) (simp add: gplHeader_def)
  finally show ?thesis .
qed

lemma gplLines_toGpl:
  assumes s: "sorted (map index es)" and g: "\<forall>e\<in>set es. goodEntry e"
  shows "gplLines (toGpl es) = gplHeader @ map gplLine es @ [[]]"
proof -
  let ?ls = "gplHeader @ map gplLine es"
  have plain: "\<not> isLineTerminator c" if "l \<in> set ?ls" "c \<in> set l" for l c
    using that g by (auto simp: gplHeader_plain gplLine_plain)
  have "CHR 0x0D \<notin> set (toGpl es)"
    unfolding toGpl_concat [OF s] using plain by (auto simp: isLineTerminator_def)
  then have "replaceCrLf (toGpl es) = toGpl es"
    by (rule replaceCrLf_id)
  moreover have "splitOn (CHR 0x0A) (concat (map (\<lambda>l. l @ [CHR 0x0A]) ?ls)) = ?ls @ [[]]"
    by (rule splitOn_concat) (use plain in \<open>auto simp: isLineTerminator_def\<close>)
  ultimately show ?thesis
    by (simp add: gplLines_def toGpl_concat [OF s])
qed

lemma gplEntry_header: "l \<in> set gplHeader \<Longrightarrow> gplEntry k l = None"
  by (auto simp: gplHeader_def gplEntry_def trim_def isWs_def skipLine_def startsWith_def)

lemma gplEntry_empty: "gplEntry k [] = None"
  by (simp add: gplEntry_def trim_def skipLine_def)

lemma parseLines_encoded:
  "\<forall>e\<in>set es. goodEntry e \<Longrightarrow> parseLines (map gplLine es @ [[]]) [] k = numbered k es"
proof (induction es arbitrary: k)
  case Nil
  then show ?case
    by (simp add: gplEntry_empty)
next
  case (Cons e es)
  from Cons.prems obtain r g b where h: "hex e = gplHex r g b" and b: "byte r" "byte g" "byte b"
    and n: "ink (name e) \<noteq> []"
    by (auto simp: goodEntry_def)
  have "gplEntry k (gplLine e) = Some \<lparr>name = normName (name e), index = of_nat k, hex = hex e\<rparr>"
    using h b n by (rule gplEntry_gplLine)
  then have "parseLines (gplLine e # map gplLine es @ [[]]) [] k
      = \<lparr>name = normName (name e), index = of_nat k, hex = hex e\<rparr>
        # parseLines (map gplLine es @ [[]]) [] (Suc k)"
    by (rule parseLines_Some)
  with Cons show ?case
    by simp
qed

lemma parseGpl_toGpl:
  assumes s: "sorted (map index es)" and g: "\<forall>e\<in>set es. goodEntry e"
  shows "parseGpl (toGpl es) = numbered 0 es"
proof -
  have "parseLines (gplHeader @ map gplLine es @ [[]]) [] 0
      = parseLines (map gplLine es @ [[]]) [] 0"
    by (simp add: gplHeader_def gplEntry_header [unfolded gplHeader_def])
  then show ?thesis
    by (simp add: parseGpl_def gplLines_toGpl [OF s g] parseLines_encoded [OF g])
qed

lemma numbered_index: "indexedFrom k (numbered k es)"
  by (induction es arbitrary: k) simp_all

lemma numbered_good: "\<forall>e\<in>set es. goodEntry e \<Longrightarrow> \<forall>e\<in>set (numbered k es). goodEntry e"
  by (induction es arbitrary: k) (simp_all add: goodEntry_def ink_normName)

lemma gplLine_eq: "name a = name b \<Longrightarrow> hex a = hex b \<Longrightarrow> gplLine a = gplLine b"
  by (simp add: gplLine_def)

lemma gplLine_normName:
  "name a = normName (name b) \<Longrightarrow> hex a = hex b \<Longrightarrow> gplLine a = gplLine b"
  using normName_idem [of "name b"] by (simp add: gplLine_def normName_def)

lemma gplLine_numbered: "map gplLine (numbered k es) = map gplLine es"
  by (induction es arbitrary: k) (simp_all add: gplLine_normName)

lemma toGpl_numbered:
  assumes "sorted (map index es)"
  shows "toGpl (numbered k es) = toGpl es"
proof -
  have "sorted (map index (numbered k es))"
    using numbered_index by (rule indexedFrom_sorted)
  then show ?thesis
    by (simp add: toGpl_concat assms gplLine_numbered)
qed

lemma normalizeHex_good: "goodEntry e \<Longrightarrow> normalizeHex (hex e) = hex e"
  by (auto simp: goodEntry_def byte_def normalizeHex_gplHex)

lemma enumerate_map_eq:
  "(\<And>k x. x \<in> set xs \<Longrightarrow> f (k, x) = g x) \<Longrightarrow> map f (enumerate n xs) = map g xs"
  by (induction xs arbitrary: n) simp_all

lemma gplItems_entries:
  "map name (gplItems ids t) = map name (parseGpl t)"
  "map index (gplItems ids t) = map index (parseGpl t)"
  "map hex (gplItems ids t) = map hex (parseGpl t)"
proof -
  have g: "\<forall>e\<in>set (parseGpl t). goodEntry e"
    unfolding parseGpl_def by (rule parseLines_good)
  show "map name (gplItems ids t) = map name (parseGpl t)"
    unfolding gplItems_def map_map by (rule enumerate_map_eq) simp
  show "map index (gplItems ids t) = map index (parseGpl t)"
    unfolding gplItems_def map_map by (rule enumerate_map_eq) simp
  show "map hex (gplItems ids t) = map hex (parseGpl t)"
    unfolding gplItems_def map_map by (rule enumerate_map_eq) (use g in \<open>simp add: normalizeHex_good\<close>)
qed

lemma map_gplLine_eq:
  "map name xs = map name ys \<Longrightarrow> map hex xs = map hex ys \<Longrightarrow> map gplLine xs = map gplLine ys"
proof (induction xs arbitrary: ys)
  case Nil
  then show ?case by simp
next
  case (Cons x xs)
  then obtain y ys' where "ys = y # ys'"
    by (cases ys) auto
  with Cons show ?case
    by (auto intro: gplLine_eq)
qed

lemma toGpl_eq:
  assumes "map name xs = map name ys" and "map index xs = map index ys"
    and "map hex xs = map hex ys" and "sorted (map index xs)"
  shows "toGpl xs = toGpl ys"
proof -
  from assms(2,4) have "sorted (map index ys)"
    by simp
  with assms(4) show ?thesis
    by (simp add: toGpl_concat map_gplLine_eq [OF assms(1,3)])
qed

lemma parseGpl_sorted: "sorted (map index (parseGpl t))"
  unfolding parseGpl_def using parseLines_index by (rule indexedFrom_sorted)

lemma toGpl_gplItems: "toGpl (gplItems ids t) = toGpl (parseGpl t)"
  by (rule toGpl_eq) (simp_all add: gplItems_entries parseGpl_sorted)

lemma toGpl_reparse_stable: "toGpl (gplItems ids' (toGpl (gplItems ids t))) = toGpl (gplItems ids t)"
proof -
  let ?es = "parseGpl t"
  have s: "sorted (map index ?es)"
    by (rule parseGpl_sorted)
  have g: "\<forall>e\<in>set ?es. goodEntry e"
    unfolding parseGpl_def by (rule parseLines_good)
  have "toGpl (gplItems ids' (toGpl (gplItems ids t))) = toGpl (parseGpl (toGpl ?es))"
    by (simp only: toGpl_gplItems)
  also have "\<dots> = toGpl (numbered 0 ?es)"
    by (simp only: parseGpl_toGpl [OF s g])
  also have "\<dots> = toGpl ?es"
    using s by (rule toGpl_numbered)
  finally show ?thesis
    by (simp only: toGpl_gplItems)
qed

subsection \<open>JSON encoding and decoding\<close>

lemma upperHex_facts:
  assumes "d \<in> set ''0123456789ABCDEF''"
  shows "isHexDigit d" and "upperChar d = d"
proof -
  have "\<forall>e\<in>set ''0123456789ABCDEF''. isHexDigit e \<and> upperChar e = e"
    by (simp add: isHexDigit_def upperChar_def upperTable_def)
  with assms show "isHexDigit d" and "upperChar d = d"
    by blast+
qed

lemma canonicalHex_normalize:
  assumes "canonicalHex h"
  shows "normalizeHex h = h"
proof -
  from assms obtain ds where h: "h = CHR ''#'' # ds" and n: "length ds = 6"
    and a: "\<forall>d\<in>set ds. d \<in> set ''0123456789ABCDEF''"
    by (auto simp: canonicalHex_def list_all_iff split: list.splits)
  from a have "\<forall>d\<in>set ds. isHexDigit d"
    using upperHex_facts(1) by blast
  with h n have p: "hexPattern h"
    by (simp add: hexPattern_def list_all_iff)
  from a have "map upperChar ds = ds"
    using upperHex_facts(2) by (simp add: map_idI)
  with h have u: "toUpperCase h = h"
    by (simp add: toUpperCase_def upperChar_hash)
  from p have "trim h = h"
    by (rule hexPattern_trim)
  with p u show ?thesis
    by (simp add: normalizeHex_def)
qed

lemma canonicalHex_nonempty: "canonicalHex h \<Longrightarrow> h \<noteq> []"
  by (auto simp: canonicalHex_def)

lemma decodeItem_encodeItem:
  assumes "canonicalHex (hex x)" and "0 \<le> index x" and "index x \<le> 999999"
  shows "decodeItem H newId (encodeItem x)
    = Inr \<lparr>name = name x, index = index x, hex = hex x, ident = newId\<rparr>"
proof -
  have g: "getProp (encodeItem x) ''name'' = Inr (Some (JStr (name x)))"
    and i: "propOf (encodeItem x) ''index'' = Some (JNum (Fin (index x)))"
    and p: "propOf (encodeItem x) ''hex'' = Some (JStr (hex x))"
    by (simp_all add: encodeItem_def member_def)
  have n: "jsString H (orElse (Some (JStr (name x))) (JStr [])) = Inr (name x)"
    by simp
  have h: "jsString H (orElse (Some (JStr (hex x))) (JStr ''#000000'')) = Inr (hex x)"
    using canonicalHex_nonempty [OF assms(1)] by simp
  have c: "clampIndex (Fin (index x)) = index x"
    using assms(2,3) by (simp add: clamp_def)
  show ?thesis
    by (simp only: decodeItem_def g i p sum.case n h jsNumber.simps c
        canonicalHex_normalize [OF assms(1)])
qed

lemma triple_eq: "triple a = triple b \<longleftrightarrow> name a = name b \<and> index a = index b \<and> hex a = hex b"
  by (simp add: triple_def)

lemma decodeItems_encoded:
  assumes "\<forall>x\<in>set xs. canonicalHex (hex x) \<and> 0 \<le> index x \<and> index x \<le> 999999"
  shows "\<exists>its. decodeItems H ids k (map encodeItem xs) = Inr its \<and> map triple its = map triple xs"
  using assms
proof (induction xs arbitrary: k)
  case Nil
  then show ?case by simp
next
  case (Cons x xs)
  then obtain its where "decodeItems H ids (Suc k) (map encodeItem xs) = Inr its"
    and "map triple its = map triple xs"
    by (metis list.set_intros(2))
  moreover have "decodeItem H (ids k) (encodeItem x)
      = Inr \<lparr>name = name x, index = index x, hex = hex x, ident = ids k\<rparr>"
    using Cons.prems by (simp add: decodeItem_encodeItem)
  ultimately show ?case
    by (simp add: triple_eq)
qed

lemma encodeJson_sorted:
  "sorted (map index its) \<Longrightarrow> encodeJson its
     = JObj [(''kind'', JStr ''palette.v1''), (''items'', JArr (map encodeItem its))]"
  by (simp add: encodeJson_def encodeItem_def sort_key_id_if_sorted)

lemma decodeJson_palette:
  "decodeJson H ids (JObj [(''kind'', JStr ''palette.v1''), (''items'', JArr xs)]) = decodeItems H ids 0 xs"
  by (simp add: decodeJson_def member_def)

lemma encode_decode_entries:
  assumes "\<forall>x\<in>set its. canonicalHex (hex x) \<and> 0 \<le> index x \<and> index x \<le> 999999"
    and "sorted (map index its)"
  shows "\<exists>its'. decodeJson H ids (encodeJson its) = Inr its' \<and> map triple its' = map triple its"
  using decodeItems_encoded [OF assms(1)]
  by (simp add: encodeJson_sorted [OF assms(2)] decodeJson_palette)

lemma jsString_error:
  "jsString H v = Inl e \<Longrightarrow> e = TypeError"
  "joinElems H vs = Inl e \<Longrightarrow> e = TypeError"
  by (induction H v and H vs rule: jsString_joinElems.induct)
    (auto split: if_splits sum.splits)

lemma jsNumber_error: "jsNumber H v = Inl e \<Longrightarrow> e = TypeError"
  by (cases "(H, v)" rule: jsNumber.cases) (auto split: sum.splits if_splits dest: jsString_error)

lemma getProp_error: "getProp x k = Inl e \<Longrightarrow> e = TypeError"
  by (cases x) simp_all

lemma decodeItem_error: "decodeItem H i x = Inl e \<Longrightarrow> e = TypeError"
  by (auto simp: decodeItem_def split: sum.splits dest: jsString_error jsNumber_error getProp_error)

lemma decodeItems_error: "decodeItems H ids k xs = Inl e \<Longrightarrow> e = TypeError"
  by (induction xs arbitrary: k) (auto split: sum.splits dest: decodeItem_error)

lemma decodeItem_Inr:
  assumes "decodeItem H newId x = Inr it"
  shows "x \<noteq> JNull"
    and "jsString H (orElse (propOf x ''name'') (JStr [])) = Inr (name it)"
    and "\<exists>n. jsNumber H (propOf x ''index'') = Inr n \<and> index it = clampIndex n"
    and "\<exists>h. jsString H (orElse (propOf x ''hex'') (JStr ''#000000'')) = Inr h \<and> hex it = normalizeHex h"
    and "ident it = newId"
proof -
  from assms show n: "x \<noteq> JNull"
    by (auto simp: decodeItem_def)
  then have g: "getProp x ''name'' = Inr (propOf x ''name'')"
    by (cases x) simp_all
  from assms show "jsString H (orElse (propOf x ''name'') (JStr [])) = Inr (name it)"
    and "\<exists>n. jsNumber H (propOf x ''index'') = Inr n \<and> index it = clampIndex n"
    and "\<exists>h. jsString H (orElse (propOf x ''hex'') (JStr ''#000000'')) = Inr h \<and> hex it = normalizeHex h"
    and "ident it = newId"
    unfolding decodeItem_def g by (auto split: sum.splits)
qed

lemma orElse_falsy: "\<not> truthy v \<Longrightarrow> orElse v d = d"
  by (cases v) simp_all

lemma clampIndex_range: "0 \<le> clampIndex n \<and> clampIndex n \<le> 999999"
  by (cases n) (simp_all add: clamp_def)

lemma decodeJson_shaped:
  "paletteDoc d \<Longrightarrow> decodeJson H ids d = decodeItems H ids 0 (elements (propOf d ''items''))"
  by (cases d) (simp_all add: paletteDoc_def decodeJson_def)

lemma decodeJson_unshaped: "\<not> paletteDoc d \<Longrightarrow> decodeJson H ids d = Inl FormatError"
  by (cases d) (auto simp: paletteDoc_def decodeJson_def)

lemma decodeJson_error:
  assumes "decodeJson H ids d = Inl e"
  shows "if paletteDoc d then e = TypeError else e = FormatError"
proof (cases "paletteDoc d")
  case True
  with assms have "decodeItems H ids 0 (elements (propOf d ''items'')) = Inl e"
    by (simp add: decodeJson_shaped)
  then have "e = TypeError"
    by (rule decodeItems_error)
  with True show ?thesis
    by simp
next
  case False
  with assms show ?thesis
    by (simp add: decodeJson_unshaped)
qed

subsection \<open>addOrUpdate\<close>

lemma updateFirst_split:
  assumes "\<exists>x\<in>set xs. p x"
  shows "\<exists>pre x post. xs = pre @ x # post \<and> (\<forall>y\<in>set pre. \<not> p y) \<and> p x
    \<and> updateFirst p f xs = pre @ f x # post"
  using assms
proof (induction xs)
  case Nil
  then show ?case by simp
next
  case (Cons a xs)
  show ?case
  proof (cases "p a")
    case True
    then have "a # xs = [] @ a # xs \<and> (\<forall>y\<in>set []. \<not> p y) \<and> p a
        \<and> updateFirst p f (a # xs) = [] @ f a # xs"
      by simp
    then show ?thesis by blast
  next
    case False
    with Cons.prems have "\<exists>x\<in>set xs. p x"
      by simp
    then obtain pre x post where s: "xs = pre @ x # post" "\<forall>y\<in>set pre. \<not> p y" "p x"
      "updateFirst p f xs = pre @ f x # post"
      using Cons.IH by blast
    with False have "a # xs = (a # pre) @ x # post \<and> (\<forall>y\<in>set (a # pre). \<not> p y) \<and> p x
        \<and> updateFirst p f (a # xs) = (a # pre) @ f x # post"
      by simp
    then show ?thesis by blast
  qed
qed

lemma find_Some_ex: "(\<exists>x\<in>set xs. p x) \<Longrightarrow> \<exists>y. find p xs = Some y"
  by (cases "find p xs") (auto simp: find_None_iff)

lemma addOrUpdate_items_found:
  assumes "\<exists>x\<in>set (items st). index x = fieldIndex st"
  shows "items (addOrUpdate newId st)
    = updateFirst (\<lambda>x. index x = fieldIndex st) (\<lambda>x. x\<lparr>name := fieldName st, hex := fieldHex st\<rparr>) (items st)"
  using find_Some_ex [OF assms] by (auto simp: addOrUpdate_def Let_def)

lemma addOrUpdate_split:
  assumes "\<exists>x\<in>set (items st). index x = fieldIndex st"
  shows "\<exists>pre x post. items st = pre @ x # post \<and> (\<forall>y\<in>set pre. index y \<noteq> fieldIndex st)
    \<and> index x = fieldIndex st
    \<and> items (addOrUpdate newId st) = pre @ x\<lparr>name := fieldName st, hex := fieldHex st\<rparr> # post"
  unfolding addOrUpdate_items_found [OF assms]
  using updateFirst_split [OF assms] by blast

lemma addOrUpdate_new_items:
  assumes "\<not> (\<exists>x\<in>set (items st). index x = fieldIndex st)"
  shows "items (addOrUpdate newId st)
    = items st @ [\<lparr>name = fieldName st, index = fieldIndex st, hex = fieldHex st, ident = newId\<rparr>]"
proof -
  from assms have "find (\<lambda>x. index x = fieldIndex st) (items st) = None"
    by (simp add: find_None_iff)
  then show ?thesis
    by (simp add: addOrUpdate_def Let_def)
qed

lemma addOrUpdate_has_index: "\<exists>x\<in>set (items (addOrUpdate newId st)). index x = fieldIndex st"
proof (cases "\<exists>x\<in>set (items st). index x = fieldIndex st")
  case True
  from addOrUpdate_split [OF True, of newId] show ?thesis
    by auto
next
  case False
  then show ?thesis
    by (simp add: addOrUpdate_new_items)
qed

subsection \<open>Layout arithmetic\<close>

lemma jsRem_mod: "0 \<le> a \<Longrightarrow> 0 < b \<Longrightarrow> jsRem a b = a mod b"
  by (cases "a = 0") (simp_all add: jsRem_def)

lemma floor_quotient: "floor (rat_of_nat i / rat_of_int c) = int i div c"
proof -
  have "rat_of_nat i = rat_of_int (int i)"
    by simp
  then show ?thesis
    by (simp only: floor_divide_of_int_eq)
qed

lemma ceiling_quotient:
  assumes "0 < c"
  shows "ceiling (rat_of_nat n / rat_of_int c) = (int n + c - 1) div c"
proof (rule ceiling_unique)
  let ?m = "int n + c - 1"
  let ?z = "?m div c"
  have m: "?m = ?z * c + ?m mod c"
    by simp
  have r: "0 \<le> ?m mod c" "?m mod c < c"
    using assms by simp_all
  from m r have le: "int n \<le> ?z * c"
    by linarith
  have "(?z - 1) * c = ?z * c - c"
    by (simp add: left_diff_distrib)
  with m r have lt: "(?z - 1) * c < int n"
    by linarith
  from le have "rat_of_int (int n) \<le> rat_of_int (?z * c)"
    by (simp only: of_int_le_iff)
  then show "rat_of_nat n / rat_of_int c \<le> rat_of_int ?z"
    using assms by (simp add: pos_divide_le_eq)
  from lt have "rat_of_int ((?z - 1) * c) < rat_of_int (int n)"
    by (simp only: of_int_less_iff)
  then show "rat_of_int ?z - 1 < rat_of_nat n / rat_of_int c"
    using assms by (simp add: pos_less_divide_eq)
qed

lemma gridCols_pos: "0 < gridCols rowLen"
  by (simp add: gridCols_def)

lemma gridRows_div: "gridRows n rowLen = max 1 ((int n + gridCols rowLen - 1) div gridCols rowLen)"
  by (simp only: gridRows_def ceiling_quotient [OF gridCols_pos])

lemma gridRows_fit:
  "int n \<le> gridRows n rowLen * gridCols rowLen"
  "1 < gridRows n rowLen \<Longrightarrow> (gridRows n rowLen - 1) * gridCols rowLen < int n"
proof -
  let ?c = "gridCols rowLen"
  let ?m = "int n + ?c - 1"
  let ?z = "?m div ?c"
  have c: "0 < ?c"
    by (rule gridCols_pos)
  have m: "?m = ?z * ?c + ?m mod ?c"
    by simp
  have r: "0 \<le> ?m mod ?c" "?m mod ?c < ?c"
    using c by simp_all
  from m r have le: "int n \<le> ?z * ?c"
    by linarith
  have "?z * ?c \<le> max 1 ?z * ?c"
    using c by (intro mult_right_mono) simp_all
  with le show "int n \<le> gridRows n rowLen * ?c"
    unfolding gridRows_div by linarith
  assume "1 < gridRows n rowLen"
  then have g: "gridRows n rowLen = ?z"
    unfolding gridRows_div by simp
  have "(?z - 1) * ?c = ?z * ?c - ?c"
    by (simp add: left_diff_distrib)
  with m r show "(gridRows n rowLen - 1) * ?c < int n"
    unfolding g by linarith
qed

lemma renderPng_cells:
  assumes "i < length its"
  shows "cellX (cells (renderPng its rowLen swW swH gapH gapV) ! i)
      = (int i mod gridCols rowLen) * (swW + gapH)"
    and "cellY (cells (renderPng its rowLen swW swH gapH gapV) ! i)
      = (int i div gridCols rowLen) * (swH + gapV)"
  using assms gridCols_pos [of rowLen]
  by (simp_all add: renderPng_def Let_def jsRem_mod floor_quotient)

lemma renderPng_size:
  "width (renderPng its rowLen swW swH gapH gapV)
     = gridCols rowLen * swW + max 0 (gridCols rowLen - 1) * gapH"
  "height (renderPng its rowLen swW swH gapH gapV)
     = gridRows (length its) rowLen * swH + max 0 (gridRows (length its) rowLen - 1) * gapV"
  "length (cells (renderPng its rowLen swW swH gapH gapV)) = length its"
  by (simp_all add: renderPng_def Let_def)

subsection \<open>Line ends and skipped lines\<close>

lemma trim_snoc:
  assumes "isWs c"
  shows "trim (xs @ [c]) = trim xs"
proof (cases "\<forall>x\<in>set xs. isWs x")
  case True
  then have "dropWhile isWs (xs @ [c]) = []" and "dropWhile isWs xs = []"
    using assms by simp_all
  then show ?thesis
    by (simp only: trim_def)
next
  case False
  then have "dropWhile isWs (xs @ [c]) = dropWhile isWs xs @ [c]"
    by (auto simp: dropWhile_append)
  with assms show ?thesis
    by (simp add: trim_def)
qed

lemma trim_stripCr: "trim (stripCr l) = trim l"
proof (cases "l \<noteq> [] \<and> last l = CHR 0x0D")
  case True
  then have "l = butlast l @ [CHR 0x0D]"
    by (metis append_butlast_last_id)
  then have "trim l = trim (butlast l)"
    using trim_snoc [of "CHR 0x0D" "butlast l"] by (simp add: isWs_def)
  with True show ?thesis
    by (simp add: stripCr_def)
next
  case False
  then show ?thesis
    by (auto simp: stripCr_def)
qed

lemma gplEntry_stripCr: "gplEntry k (stripCr l) = gplEntry k l"
  by (simp add: gplEntry_def trim_stripCr)

lemma stripCr_set: "set (stripCr l) \<subseteq> set l"
  by (auto simp: stripCr_def dest: in_set_butlastD)

lemma replaceCrLf_plain: "CHR 0x0A \<notin> set s \<Longrightarrow> replaceCrLf s = s"
  by (induction s rule: replaceCrLf.induct) auto

lemma replaceCrLf_line:
  "CHR 0x0A \<notin> set l \<Longrightarrow> replaceCrLf (l @ CHR 0x0A # rest) = stripCr l @ CHR 0x0A # replaceCrLf rest"
proof (induction l rule: induct_list012)
  case 1
  then show ?case
    by (cases rest) (simp_all add: stripCr_def)
next
  case (2 c)
  then show ?case
    by (cases rest) (simp_all add: stripCr_def)
next
  case (3 c d l)
  then show ?case
    by (auto simp: stripCr_def)
qed

lemma splitOn_plain: "sep \<notin> set s \<Longrightarrow> splitOn sep s = [s]"
  by (induction s) auto

lemma gplLines_three:
  assumes "CHR 0x0A \<notin> set a" and "CHR 0x0A \<notin> set b" and "CHR 0x0A \<notin> set c"
  shows "gplLines (a @ [CHR 0x0A] @ b @ [CHR 0x0A] @ c) = [stripCr a, stripCr b, c]"
proof -
  have "replaceCrLf (a @ [CHR 0x0A] @ b @ [CHR 0x0A] @ c)
      = stripCr a @ CHR 0x0A # stripCr b @ CHR 0x0A # c"
    using assms by (simp add: replaceCrLf_line replaceCrLf_plain)
  moreover have "CHR 0x0A \<notin> set (stripCr a)" and "CHR 0x0A \<notin> set (stripCr b)"
    using assms stripCr_set by blast+
  ultimately show ?thesis
    using assms(3) by (simp add: gplLines_def splitOn_line splitOn_plain)
qed

lemma malformed_rejected: "malformedLine raw \<Longrightarrow> gplEntry idx raw = None"
  by (simp add: malformedLine_def gplEntry_def)

lemma parseLines_skip:
  assumes "\<And>k. gplEntry k bad = None"
  shows "parseLines (pre @ bad # post) out idx = parseLines (pre @ post) out idx"
proof (induction pre arbitrary: out idx)
  case Nil
  then show ?case
    by (simp add: assms)
next
  case (Cons raw pre)
  then show ?case
    by (cases "gplEntry idx raw") simp_all
qed

lemma gplItems_index: "map index (gplItems ids t) = map index (parseGpl t)"
  by (rule gplItems_entries)

lemma gplItems_length: "length (gplItems ids t) = length (parseGpl t)"
  by (simp add: gplItems_def)

lemma gplItems_nth:
  assumes "k < length (parseGpl t)"
  shows "gplItems ids t ! k = \<lparr>name = name (parseGpl t ! k), index = index (parseGpl t ! k),
    hex = hex (parseGpl t ! k), ident = ids k\<rparr>"
proof -
  have "gplItems ids t ! k = \<lparr>name = name (parseGpl t ! k), index = index (parseGpl t ! k),
      hex = normalizeHex (hex (parseGpl t ! k)), ident = ids k\<rparr>"
    using assms by (simp add: gplItems_def nth_enumerate_eq)
  moreover have "goodEntry (parseGpl t ! k)"
    using assms parseLines_good [of "gplLines t" 0] by (simp add: parseGpl_def)
  ultimately show ?thesis
    by (simp add: normalizeHex_good)
qed

subsection \<open>The groups of an accepted line\<close>

lemma dropWhile_suffix: "\<exists>p. xs = p @ dropWhile P xs"
  by (metis takeWhile_dropWhile_id)

lemma gplPattern_suffix:
  assumes "gplPattern line = Some (m1, m2, m3, m4)"
  shows "\<exists>p. line = p @ m4"
proof -
  let ?r1 = "dropWhile isDigit line"
  let ?r2 = "dropWhile isWs ?r1"
  let ?r3 = "dropWhile isDigit ?r2"
  let ?r4 = "dropWhile isWs ?r3"
  let ?r5 = "dropWhile isDigit ?r4"
  from assms have m: "m4 = dropWhile isWs ?r5"
    by (auto simp: gplPattern_def Let_def split: if_splits)
  obtain p1 p2 p3 p4 p5 p6 where "line = p1 @ ?r1" "?r1 = p2 @ ?r2" "?r2 = p3 @ ?r3"
    "?r3 = p4 @ ?r4" "?r4 = p5 @ ?r5" "?r5 = p6 @ dropWhile isWs ?r5"
    using dropWhile_suffix by metis
  then have "line = (p1 @ p2 @ p3 @ p4 @ p5 @ p6) @ dropWhile isWs ?r5"
    by (metis append.assoc)
  with m show ?thesis
    by blast
qed

lemma trim_colorName: "trim (colorName k) = colorName k"
proof (rule trim_id)
  show "colorName k \<noteq> []"
    by (simp add: colorName_def)
  show "\<not> isWs (hd (colorName k))"
    by (simp add: colorName_def isWs_def)
  have "last (colorName k) = last (natDigits 10 k)"
    using natDigits_dec [of k] by (simp add: colorName_def)
  moreover have "isDigit (last (natDigits 10 k))"
    using natDigits_dec [of k] by (simp add: list_all_iff)
  ultimately show "\<not> isWs (last (colorName k))"
    by (simp add: isDigit_facts(1))
qed

lemma gplPattern_group4:
  assumes "gplPattern (trim raw) = Some (m1, m2, m3, m4)" and "m4 \<noteq> []"
  shows "trim m4 = m4"
proof (rule trim_id)
  show "m4 \<noteq> []"
    by (rule assms(2))
  show "\<not> isWs (hd m4)"
    using gplPattern_rest [OF assms(1)] assms(2) by simp
  obtain p where p: "trim raw = p @ m4"
    using gplPattern_suffix [OF assms(1)] by blast
  with assms(2) have "trim raw \<noteq> []" and "last (trim raw) = last m4"
    by simp_all
  then show "\<not> isWs (last m4)"
    using trim_ends(2) [of raw] by simp
qed

lemma gplEntry_groups:
  assumes "gplEntry k raw = Some e"
  shows "\<exists>m1 m2 m3 m4. gplPattern (trim raw) = Some (m1, m2, m3, m4)
    \<and> name e = (if m4 = [] then colorName k else m4)
    \<and> hex e = gplHex (clamp (orZero (parseInt m1 10)) 0 255)
        (clamp (orZero (parseInt m2 10)) 0 255) (clamp (orZero (parseInt m3 10)) 0 255)
    \<and> index e = of_nat k"
proof -
  from assms obtain m1 m2 m3 m4 where m: "gplPattern (trim raw) = Some (m1, m2, m3, m4)"
    and e: "e = \<lparr>name = (let t = trim (if m4 = [] then colorName k else m4)
                          in if t = [] then colorName k else t),
                 index = of_nat k,
                 hex = gplHex (clamp (orZero (parseInt m1 10)) 0 255)
                   (clamp (orZero (parseInt m2 10)) 0 255) (clamp (orZero (parseInt m3 10)) 0 255)\<rparr>"
    by (auto simp: gplEntry_def Let_def split: if_splits option.splits)
  have "trim (if m4 = [] then colorName k else m4) = (if m4 = [] then colorName k else m4)"
    using gplPattern_group4 [OF m] by (simp add: trim_colorName)
  moreover have "(if m4 = [] then colorName k else m4) \<noteq> []"
    by (simp add: colorName_def)
  ultimately have "name e = (if m4 = [] then colorName k else m4)"
    unfolding e by (simp add: Let_def)
  with m e show ?thesis
    by simp
qed

section \<open>Claims\<close>

subsection \<open>C1: JSON round trip\<close>

text \<open>
  C1. For every non-empty list of items that is sorted ascending by \<open>index\<close>, whose
  \<open>hex\<close> fields are canonical and whose indices are integers in \<open>[0, 999999]\<close>,
  decoding the document the JSON encoder produces succeeds and yields items with exactly
  the same \<open>(name, index, hex)\<close> triples in the same order. The host and the identifiers
  drawn for the new items are arbitrary.
\<close>

theorem json_round_trip:
  assumes "its \<noteq> []"
    and "sorted (map index its)"
    and "\<forall>x\<in>set its. canonicalHex (hex x) \<and> index x \<in> \<int> \<and> 0 \<le> index x \<and> index x \<le> 999999"
  shows "\<exists>its'. decodeJson H ids (encodeJson its) = Inr its' \<and> map triple its' = map triple its"
  using assms(3) by (intro encode_decode_entries assms(2)) blast

theorem json_round_trip_witness:
  "\<exists>its'. decodeJson sampleHost (\<lambda>k. ''id'')
       (encodeJson [\<lparr>name = ''Red'', index = 0, hex = ''#FF0000'', ident = ''a''\<rparr>,
                    \<lparr>name = ''Blue'', index = 5, hex = ''#0000FF'', ident = ''b''\<rparr>]) = Inr its'
     \<and> map triple its' = map triple [\<lparr>name = ''Red'', index = 0, hex = ''#FF0000'', ident = ''a''\<rparr>,
                    \<lparr>name = ''Blue'', index = 5, hex = ''#0000FF'', ident = ''b''\<rparr>]"
proof (rule json_round_trip)
  show "[\<lparr>name = ''Red'', index = 0, hex = ''#FF0000'', ident = ''a''\<rparr>,
         \<lparr>name = ''Blue'', index = 5, hex = ''#0000FF'', ident = ''b''\<rparr>] \<noteq> []"
    by simp
  show "sorted (map index [\<lparr>name = ''Red'', index = 0, hex = ''#FF0000'', ident = ''a''\<rparr>,
         \<lparr>name = ''Blue'', index = 5, hex = ''#0000FF'', ident = ''b''\<rparr>])"
    by simp
  show "\<forall>x\<in>set [\<lparr>name = ''Red'', index = 0, hex = ''#FF0000'', ident = ''a''\<rparr>,
         \<lparr>name = ''Blue'', index = 5, hex = ''#0000FF'', ident = ''b''\<rparr>].
      canonicalHex (hex x) \<and> index x \<in> \<int> \<and> 0 \<le> index x \<and> index x \<le> 999999"
    by (simp add: canonicalHex_def)
qed

subsection \<open>C2: GPL decoding keeps file order, and one hop reaches a fixed point\<close>

text \<open>
  C2. For every input text \<open>t\<close>, GPL decoding yields one item per accepted line, in file
  order: the item at position \<open>k\<close> has as its name the fourth group of the pattern on the
  \<open>k\<close>-th accepted line (\<open>Color k\<close> when that group is empty), as its colour the three
  numbers of that line, each clamped to 255, and as its index \<open>k\<close>, so the indices are
  \<open>0..n-1\<close>. And with \<open>t1 = toGpl (decode t)\<close>, encoding the decoding of \<open>t1\<close> gives
  \<open>t1\<close> again, character for character, whatever identifiers the two loads draw.
\<close>

theorem gpl_order_and_fixed_point:
  "length (gplItems ids t) = length (filter acceptedLine (gplLines t))
   \<and> (\<forall>k<length (gplItems ids t).
        \<exists>m1 m2 m3 m4.
          gplPattern (trim (filter acceptedLine (gplLines t) ! k)) = Some (m1, m2, m3, m4)
          \<and> name (gplItems ids t ! k) = (if m4 = [] then colorName k else m4)
          \<and> hex (gplItems ids t ! k)
              = gplHex (clamp (orZero (parseInt m1 10)) 0 255)
                  (clamp (orZero (parseInt m2 10)) 0 255) (clamp (orZero (parseInt m3 10)) 0 255)
          \<and> index (gplItems ids t ! k) = of_nat k)
   \<and> toGpl (gplItems ids' (toGpl (gplItems ids t))) = toGpl (gplItems ids t)"
proof (intro conjI allI impI)
  note acc = parseLines_accepted [of "gplLines t" 0, folded parseGpl_def]
  from acc show l: "length (gplItems ids t) = length (filter acceptedLine (gplLines t))"
    by (simp add: gplItems_length)
  fix k
  assume "k < length (gplItems ids t)"
  then have k: "k < length (parseGpl t)" and k': "k < length (filter acceptedLine (gplLines t))"
    using l by (simp_all add: gplItems_length)
  from acc k' have "gplEntry k (filter acceptedLine (gplLines t) ! k) = Some (parseGpl t ! k)"
    by simp
  from gplEntry_groups [OF this]
  show "\<exists>m1 m2 m3 m4.
          gplPattern (trim (filter acceptedLine (gplLines t) ! k)) = Some (m1, m2, m3, m4)
          \<and> name (gplItems ids t ! k) = (if m4 = [] then colorName k else m4)
          \<and> hex (gplItems ids t ! k)
              = gplHex (clamp (orZero (parseInt m1 10)) 0 255)
                  (clamp (orZero (parseInt m2 10)) 0 255) (clamp (orZero (parseInt m3 10)) 0 255)
          \<and> index (gplItems ids t ! k) = of_nat k"
    by (simp add: gplItems_nth [OF k])
next
  show "toGpl (gplItems ids' (toGpl (gplItems ids t))) = toGpl (gplItems ids t)"
    by (rule toGpl_reparse_stable)
qed

theorem gpl_order_and_fixed_point_witness:
  "1 < length (gplItems (\<lambda>k. ''id'') sampleGpl)
   \<and> (\<exists>m1 m2 m3 m4.
         gplPattern (trim (filter acceptedLine (gplLines sampleGpl) ! 1)) = Some (m1, m2, m3, m4)
         \<and> name (gplItems (\<lambda>k. ''id'') sampleGpl ! 1) = (if m4 = [] then colorName 1 else m4)
         \<and> hex (gplItems (\<lambda>k. ''id'') sampleGpl ! 1)
             = gplHex (clamp (orZero (parseInt m1 10)) 0 255)
                 (clamp (orZero (parseInt m2 10)) 0 255) (clamp (orZero (parseInt m3 10)) 0 255)
         \<and> index (gplItems (\<lambda>k. ''id'') sampleGpl ! 1) = 1)
   \<and> filter acceptedLine (gplLines sampleGpl) ! 1 = ''0 0 300''
   \<and> gplPattern (trim ''0 0 300'') = Some (''0'', ''0'', ''300'', [])
   \<and> gplItems (\<lambda>k. ''id'') sampleGpl
       = [\<lparr>name = ''Red'', index = 0, hex = ''#FF0000'', ident = ''id''\<rparr>,
          \<lparr>name = ''Color 1'', index = 1, hex = ''#0000FF'', ident = ''id''\<rparr>]
   \<and> toGpl (gplItems (\<lambda>k. ''id'') (toGpl (gplItems (\<lambda>k. ''id'') sampleGpl)))
       = toGpl (gplItems (\<lambda>k. ''id'') sampleGpl)"
proof -
  note t = gpl_order_and_fixed_point [of "\<lambda>k. ''id''" sampleGpl "\<lambda>k. ''id''"]
  have v: "gplItems (\<lambda>k. ''id'') sampleGpl
       = [\<lparr>name = ''Red'', index = 0, hex = ''#FF0000'', ident = ''id''\<rparr>,
          \<lparr>name = ''Color 1'', index = 1, hex = ''#0000FF'', ident = ''id''\<rparr>]"
    by code_simp
  then have l: "1 < length (gplItems (\<lambda>k. ''id'') sampleGpl)"
    by simp
  have a: "filter acceptedLine (gplLines sampleGpl) ! 1 = ''0 0 300''"
    by code_simp
  have p: "gplPattern (trim ''0 0 300'') = Some (''0'', ''0'', ''300'', [])"
    by code_simp
  from t l have g: "\<exists>m1 m2 m3 m4.
         gplPattern (trim (filter acceptedLine (gplLines sampleGpl) ! 1)) = Some (m1, m2, m3, m4)
         \<and> name (gplItems (\<lambda>k. ''id'') sampleGpl ! 1) = (if m4 = [] then colorName 1 else m4)
         \<and> hex (gplItems (\<lambda>k. ''id'') sampleGpl ! 1)
             = gplHex (clamp (orZero (parseInt m1 10)) 0 255)
                 (clamp (orZero (parseInt m2 10)) 0 255) (clamp (orZero (parseInt m3 10)) 0 255)
         \<and> index (gplItems (\<lambda>k. ''id'') sampleGpl ! 1) = of_nat 1"
    by blast
  from t have f: "toGpl (gplItems (\<lambda>k. ''id'') (toGpl (gplItems (\<lambda>k. ''id'') sampleGpl)))
       = toGpl (gplItems (\<lambda>k. ''id'') sampleGpl)"
    by blast
  from g have g': "\<exists>m1 m2 m3 m4.
         gplPattern (trim (filter acceptedLine (gplLines sampleGpl) ! 1)) = Some (m1, m2, m3, m4)
         \<and> name (gplItems (\<lambda>k. ''id'') sampleGpl ! 1) = (if m4 = [] then colorName 1 else m4)
         \<and> hex (gplItems (\<lambda>k. ''id'') sampleGpl ! 1)
             = gplHex (clamp (orZero (parseInt m1 10)) 0 255)
                 (clamp (orZero (parseInt m2 10)) 0 255) (clamp (orZero (parseInt m3 10)) 0 255)
         \<and> index (gplItems (\<lambda>k. ''id'') sampleGpl ! 1) = 1"
    by simp
  from l g' a p v f show ?thesis
    by (intro conjI)
qed

subsection \<open>C3: normalizeHex\<close>

text \<open>
  C3, as amended. \<open>normalizeHex\<close> has no failing branch and is idempotent; it returns
  the input uppercased if and only if the input is \<open>#\<close> followed by exactly six
  hexadecimal digits; what decides between the uppercased text and \<open>#000000\<close> is the
  input with the white space at its ends removed: when that matches the pattern the result
  is the trimmed input uppercased, and otherwise it is exactly \<open>#000000\<close>.
\<close>

theorem normalizeHex_trimmed:
  "normalizeHex (normalizeHex s) = normalizeHex s
   \<and> (normalizeHex s = toUpperCase s \<longleftrightarrow> hexPattern s)
   \<and> (hexPattern (trim s) \<longrightarrow> normalizeHex s = toUpperCase (trim s))
   \<and> (\<not> hexPattern (trim s) \<longrightarrow> normalizeHex s = ''#000000'')"
  by (simp add: normalizeHex_idem normalizeHex_upper_iff) (simp add: normalizeHex_def)

theorem normalizeHex_trimmed_witness:
  "hexPattern (trim '' #abcdef'') \<and> normalizeHex '' #abcdef'' = ''#ABCDEF''
   \<and> \<not> hexPattern (trim ''red'') \<and> normalizeHex ''red'' = ''#000000''"
proof -
  have a: "trim '' #abcdef'' = ''#abcdef''" and b: "trim ''red'' = ''red''"
    by (simp_all add: trim_def isWs_def)
  have pa: "hexPattern ''#abcdef''" and pb: "\<not> hexPattern ''red''"
    by (simp_all add: hexPattern_def isHexDigit_def)
  have u: "toUpperCase ''#abcdef'' = ''#ABCDEF''"
    by (simp add: toUpperCase_def upperChar_def upperTable_def)
  from normalizeHex_trimmed [of "'' #abcdef''"] normalizeHex_trimmed [of "''red''"]
  show ?thesis
    by (simp add: a b pa pb u)
qed

text \<open>
  C3 as stated fails: the text \<open> #abcdef\<close> (one leading space) does not match the
  pattern, and the result is not \<open>#000000\<close>.
\<close>

theorem normalizeHex_unmatched_counterexample:
  "\<not> hexPattern '' #abcdef'' \<and> normalizeHex '' #abcdef'' = ''#ABCDEF''"
  by (simp add: hexPattern_def normalizeHex_def trim_def isWs_def isHexDigit_def
      toUpperCase_def upperChar_def upperTable_def)

subsection \<open>C4: GPL decoding is lenient\<close>

text \<open>
  C4. Loading a file whose name ends in \<open>.gpl\<close> never fails: the result is the decoded
  collection, for every text. A malformed line (one that passes the five skip tests and
  fails the pattern) is skipped and leaves the counter alone: the loop gives the same
  result, from the same \<open>out\<close> and \<open>idx\<close>, as on the lines without it. So a text of
  three lines, a malformed one between two accepted ones, decodes to exactly two items,
  with the indices 0 and 1.
\<close>

theorem parseGpl_lenient:
  "(endsWith (toLowerCase fname) ''.gpl'' \<longrightarrow> decodeFile H ids fname text = Inr (gplItems ids text))
   \<and> (malformedLine bad \<longrightarrow>
        parseLines (pre @ bad # post) out idx = parseLines (pre @ post) out idx)
   \<and> (acceptedLine l1 \<and> malformedLine bad \<and> acceptedLine l2
        \<and> CHR 0x0A \<notin> set l1 \<and> CHR 0x0A \<notin> set bad \<and> CHR 0x0A \<notin> set l2 \<longrightarrow>
        length (gplItems ids (l1 @ [CHR 0x0A] @ bad @ [CHR 0x0A] @ l2)) = 2
        \<and> map index (gplItems ids (l1 @ [CHR 0x0A] @ bad @ [CHR 0x0A] @ l2)) = [0, 1])"
proof (intro conjI impI)
  assume "endsWith (toLowerCase fname) ''.gpl''"
  then show "decodeFile H ids fname text = Inr (gplItems ids text)"
    by (simp add: decodeFile_def)
next
  assume "malformedLine bad"
  then show "parseLines (pre @ bad # post) out idx = parseLines (pre @ post) out idx"
    by (intro parseLines_skip malformed_rejected)
next
  assume a: "acceptedLine l1 \<and> malformedLine bad \<and> acceptedLine l2
    \<and> CHR 0x0A \<notin> set l1 \<and> CHR 0x0A \<notin> set bad \<and> CHR 0x0A \<notin> set l2"
  let ?t = "l1 @ [CHR 0x0A] @ bad @ [CHR 0x0A] @ l2"
  from a obtain e1 where e1: "gplEntry 0 l1 = Some e1"
    using gplEntry_accepted [of 0 l1] by auto
  from a obtain e2 where e2: "gplEntry (Suc 0) l2 = Some e2"
    using gplEntry_accepted [of "Suc 0" l2] by auto
  from a have b: "\<And>k. gplEntry k bad = None"
    by (simp add: malformed_rejected)
  have "gplLines ?t = [stripCr l1, stripCr bad, l2]"
    using a by (intro gplLines_three) simp_all
  then have p: "parseGpl ?t = [e1, e2]"
    by (simp add: parseGpl_def gplEntry_stripCr e1 e2 b)
  have "index e1 = 0" and "index e2 = 1"
    using gplEntry_good(1) [OF e1] gplEntry_good(1) [OF e2] by simp_all
  with p show "length (gplItems ids ?t) = 2" and "map index (gplItems ids ?t) = [0, 1]"
    by (simp_all add: gplItems_index gplItems_length)
qed

theorem parseGpl_lenient_witness:
  "endsWith (toLowerCase ''Warm.GPL'') ''.gpl''
   \<and> decodeFile sampleHost (\<lambda>k. ''id'') ''Warm.GPL'' sampleGpl = Inr (gplItems (\<lambda>k. ''id'') sampleGpl)
   \<and> acceptedLine (''255   0   0'' @ [CHR 0x09] @ ''Red'') \<and> malformedLine (''foo bar'' @ [CHR 0x0D])
   \<and> acceptedLine ''0 0 300''
   \<and> parseLines [''255   0   0'' @ [CHR 0x09] @ ''Red'', ''foo bar'' @ [CHR 0x0D], ''0 0 300''] [] 0
       = parseLines [''255   0   0'' @ [CHR 0x09] @ ''Red'', ''0 0 300''] [] 0
   \<and> length (gplItems (\<lambda>k. ''id'') sampleGpl) = 2
   \<and> map index (gplItems (\<lambda>k. ''id'') sampleGpl) = [0, 1]"
proof -
  let ?l1 = "''255   0   0'' @ [CHR 0x09] @ ''Red''"
  let ?bad = "''foo bar'' @ [CHR 0x0D]"
  let ?l2 = "''0 0 300''"
  note t = parseGpl_lenient [of "''Warm.GPL''" sampleHost "\<lambda>k. ''id''" sampleGpl ?bad "[?l1]" "[?l2]"
      "[]" 0 ?l1 ?l2]
  have n: "endsWith (toLowerCase ''Warm.GPL'') ''.gpl''"
    by code_simp
  have a: "acceptedLine ?l1" "malformedLine ?bad" "acceptedLine ?l2"
    by code_simp+
  have f: "CHR 0x0A \<notin> set ?l1" "CHR 0x0A \<notin> set ?bad" "CHR 0x0A \<notin> set ?l2"
    by simp_all
  have s: "sampleGpl = ?l1 @ [CHR 0x0A] @ ?bad @ [CHR 0x0A] @ ?l2"
    by (simp add: sampleGpl_def)
  from t n a f have "decodeFile sampleHost (\<lambda>k. ''id'') ''Warm.GPL'' sampleGpl
      = Inr (gplItems (\<lambda>k. ''id'') sampleGpl)"
    and "parseLines ([?l1] @ ?bad # [?l2]) [] 0 = parseLines ([?l1] @ [?l2]) [] 0"
    and "length (gplItems (\<lambda>k. ''id'') (?l1 @ [CHR 0x0A] @ ?bad @ [CHR 0x0A] @ ?l2)) = 2"
    and "map index (gplItems (\<lambda>k. ''id'') (?l1 @ [CHR 0x0A] @ ?bad @ [CHR 0x0A] @ ?l2)) = [0, 1]"
    by blast+
  with n a show ?thesis
    unfolding s by simp
qed

subsection \<open>C5: FormatError\<close>

text \<open>
  C5. For every JSON document, decoding fails with \<open>FormatError\<close> if and only if the
  document is not an object whose \<open>kind\<close> is \<open>palette.v1\<close> and whose \<open>items\<close> is an
  array (a document of that shape either decodes or fails with another error); and
  decoding \<open>{kind: not.palette, items: []}\<close> fails with \<open>FormatError\<close>.
\<close>

theorem decodeJson_format_error:
  "(decodeJson H ids d = Inl FormatError \<longleftrightarrow> \<not> paletteDoc d)
   \<and> decodeJson H ids (JObj [(''kind'', JStr ''not.palette''), (''items'', JArr [])]) = Inl FormatError"
proof
  show "decodeJson H ids d = Inl FormatError \<longleftrightarrow> \<not> paletteDoc d"
  proof
    assume "decodeJson H ids d = Inl FormatError"
    from decodeJson_error [OF this] show "\<not> paletteDoc d"
      by (auto split: if_splits)
  next
    assume "\<not> paletteDoc d"
    then show "decodeJson H ids d = Inl FormatError"
      by (rule decodeJson_unshaped)
  qed
  show "decodeJson H ids (JObj [(''kind'', JStr ''not.palette''), (''items'', JArr [])]) = Inl FormatError"
    by (simp add: decodeJson_def member_def)
qed

theorem decodeJson_format_error_witness:
  "paletteDoc (JObj [(''kind'', JStr ''palette.v1''), (''items'', JArr [JNull])])
   \<and> decodeJson sampleHost (\<lambda>k. ''id'') (JObj [(''kind'', JStr ''palette.v1''), (''items'', JArr [JNull])])
       \<noteq> Inl FormatError
   \<and> \<not> paletteDoc (JArr [])
   \<and> decodeJson sampleHost (\<lambda>k. ''id'') (JArr []) = Inl FormatError"
  using decodeJson_format_error [of sampleHost "\<lambda>k. ''id''"
      "JObj [(''kind'', JStr ''palette.v1''), (''items'', JArr [JNull])]"]
    decodeJson_format_error [of sampleHost "\<lambda>k. ''id''" "JArr []"]
  by (simp add: paletteDoc_def member_def)

subsection \<open>C6: a failed load leaves the collection alone\<close>

text \<open>
  C6. For every prior state and every input, if decoding fails, with whatever error, the
  state after the load is the prior state with only the status line changed: the
  collection is exactly the prior collection. The loads that fail are those of a file
  that is not a \<open>.gpl\<close> file and whose text the host cannot parse (\<open>SyntaxError\<close>),
  or parses to a document of another shape (\<open>FormatError\<close>), or to a document of the
  right shape with an element that raises (\<open>TypeError\<close>), however many elements were
  decoded before it.
\<close>

theorem loadFile_failure_keeps_items:
  "decodeFile H ids fname text = Inl e \<Longrightarrow>
     loadFile H ids fname text st = st\<lparr>statusMsg := LoadError e\<rparr>
     \<and> items (loadFile H ids fname text st) = items st
     \<and> \<not> endsWith (toLowerCase fname) ''.gpl''
     \<and> (case jsonParse H text of
           None \<Rightarrow> e = SyntaxError
         | Some d \<Rightarrow> if paletteDoc d then e = TypeError else e = FormatError)"
proof -
  assume f: "decodeFile H ids fname text = Inl e"
  then have g: "\<not> endsWith (toLowerCase fname) ''.gpl''"
    by (auto simp: decodeFile_def split: if_splits)
  have "case jsonParse H text of
           None \<Rightarrow> e = SyntaxError
         | Some d \<Rightarrow> if paletteDoc d then e = TypeError else e = FormatError"
  proof (cases "jsonParse H text")
    case None
    with f g show ?thesis
      by (simp add: decodeFile_def)
  next
    case (Some d)
    with f g have "decodeJson H ids d = Inl e"
      by (simp add: decodeFile_def)
    from decodeJson_error [OF this] Some show ?thesis
      by simp
  qed
  with f g show ?thesis
    by (simp add: loadFile_def)
qed

theorem loadFile_failure_keeps_items_witness:
  "decodeFile (sampleHost\<lparr>jsonParse := \<lambda>t. Some sampleDoc\<rparr>) (\<lambda>k. ''id'') ''palette.json'' ''text''
     = Inl TypeError
   \<and> paletteDoc sampleDoc
   \<and> items (loadFile (sampleHost\<lparr>jsonParse := \<lambda>t. Some sampleDoc\<rparr>) (\<lambda>k. ''id'')
        ''palette.json'' ''text'' sampleStore) = items sampleStore
   \<and> length (items sampleStore) = 3"
proof -
  have h: "decodeFile (sampleHost\<lparr>jsonParse := \<lambda>t. Some sampleDoc\<rparr>) (\<lambda>k. ''id'')
      ''palette.json'' ''text'' = Inl TypeError"
    by code_simp
  have p: "paletteDoc sampleDoc"
    by code_simp
  from loadFile_failure_keeps_items [OF h, of sampleStore] h p show ?thesis
    by (simp add: sampleStore_def)
qed

subsection \<open>C7: the fields of a decoded JSON element\<close>

text \<open>
  C7, as amended. For every element of the \<open>items\<close> array that decodes (\<open>null\<close>, and an
  object with a \<open>toString\<close> member in a field, raise \<open>TypeError\<close> instead), the
  produced item has: \<open>name\<close> equal to the element's name when that is text, to the empty
  text when it is absent or false (\<open>null\<close>, \<open>false\<close>, 0, the empty text), and otherwise
  to the text the host's string conversion gives for it, \<open>true\<close> for \<open>true\<close>; \<open>index\<close>
  always in \<open>[0, 999999]\<close>: 0 when the element's index is absent, \<open>null\<close>, \<open>false\<close> or
  \<open>NaN\<close>, 1 when it is \<open>true\<close>, the number clamped to the range when it is a number, and
  for a text the clamped number the host reads from it; \<open>hex\<close> equal to the normalized
  hex of the element when that is text, and to \<open>#000000\<close> when it is absent or false; and
  the identifier drawn for it.
\<close>

theorem decodeItem_fields:
  assumes "decodeItem H newId x = Inr it"
  shows "(\<not> truthy (propOf x ''name'') \<longrightarrow> name it = [])
    \<and> (\<forall>s. propOf x ''name'' = Some (JStr s) \<longrightarrow> name it = s)
    \<and> (\<forall>v. propOf x ''name'' = Some v \<and> truthy (Some v) \<longrightarrow> jsString H v = Inr (name it))
    \<and> (propOf x ''name'' = Some (JBool True) \<longrightarrow> name it = ''true'')
    \<and> (propOf x ''index'' = None \<or> propOf x ''index'' = Some JNull
         \<or> propOf x ''index'' = Some (JBool False) \<or> propOf x ''index'' = Some (JNum NaN)
         \<longrightarrow> index it = 0)
    \<and> (propOf x ''index'' = Some (JBool True) \<longrightarrow> index it = 1)
    \<and> (\<forall>q. propOf x ''index'' = Some (JNum (Fin q)) \<longrightarrow> index it = max 0 (min 999999 q))
    \<and> (propOf x ''index'' = Some (JNum PosInf) \<longrightarrow> index it = 999999)
    \<and> (propOf x ''index'' = Some (JNum NegInf) \<longrightarrow> index it = 0)
    \<and> (\<forall>s. propOf x ''index'' = Some (JStr s) \<longrightarrow> index it = clampIndex (stringToNumber H s))
    \<and> 0 \<le> index it \<and> index it \<le> 999999
    \<and> (\<not> truthy (propOf x ''hex'') \<longrightarrow> hex it = ''#000000'')
    \<and> (\<forall>s. propOf x ''hex'' = Some (JStr s) \<longrightarrow> hex it = normalizeHex s)
    \<and> ident it = newId"
proof -
  note d = decodeItem_Inr [OF assms]
  from d(3) obtain n where n: "jsNumber H (propOf x ''index'') = Inr n" and i: "index it = clampIndex n"
    by blast
  from d(4) obtain h where h: "jsString H (orElse (propOf x ''hex'') (JStr ''#000000'')) = Inr h"
    and x: "hex it = normalizeHex h"
    by blast
  have b: "normalizeHex ''#000000'' = ''#000000''"
    using normalizeHex_upper_iff [of "''#000000''"] hexPattern_black
    by (simp add: toUpperCase_def upperChar_def upperTable_def)
  have e: "normalizeHex [] = ''#000000''"
    by (simp add: normalizeHex_def trim_def hexPattern_def)
  have 1: "\<not> truthy (propOf x ''name'') \<longrightarrow> name it = []"
    using d(2) by (auto simp: orElse_falsy)
  have 2: "\<forall>s. propOf x ''name'' = Some (JStr s) \<longrightarrow> name it = s"
    using d(2) by (auto split: if_splits)
  have 3: "\<forall>v. propOf x ''name'' = Some v \<and> truthy (Some v) \<longrightarrow> jsString H v = Inr (name it)"
    using d(2) by auto
  have 4: "propOf x ''name'' = Some (JBool True) \<longrightarrow> name it = ''true''"
    using d(2) by auto
  have 5: "propOf x ''index'' = None \<or> propOf x ''index'' = Some JNull
         \<or> propOf x ''index'' = Some (JBool False) \<or> propOf x ''index'' = Some (JNum NaN)
         \<longrightarrow> index it = 0"
    using n i by (auto simp: clamp_def)
  have 6: "propOf x ''index'' = Some (JBool True) \<longrightarrow> index it = 1"
    using n i by (auto simp: clamp_def)
  have 7: "\<forall>q. propOf x ''index'' = Some (JNum (Fin q)) \<longrightarrow> index it = max 0 (min 999999 q)"
    using n i by (auto simp: clamp_def)
  have 8: "propOf x ''index'' = Some (JNum PosInf) \<longrightarrow> index it = 999999"
    "propOf x ''index'' = Some (JNum NegInf) \<longrightarrow> index it = 0"
    "\<forall>s. propOf x ''index'' = Some (JStr s) \<longrightarrow> index it = clampIndex (stringToNumber H s)"
    using n i by auto
  have 9: "0 \<le> index it \<and> index it \<le> 999999"
    unfolding i by (rule clampIndex_range)
  have 10: "\<not> truthy (propOf x ''hex'') \<longrightarrow> hex it = ''#000000''"
    using h x by (auto simp: orElse_falsy b)
  have 11: "\<forall>s. propOf x ''hex'' = Some (JStr s) \<longrightarrow> hex it = normalizeHex s"
    using h x by (auto simp: b e split: if_splits)
  from 1 2 3 4 5 6 7 8 9 10 11 d(5) show ?thesis
    by blast
qed

theorem decodeItem_fields_witness:
  "decodeItem sampleHost ''id0''
       (JObj [(''name'', JStr ''Red''), (''index'', JNum (Fin 1000000)), (''hex'', JStr ''#ff0000'')])
     = Inr \<lparr>name = ''Red'', index = 999999, hex = ''#FF0000'', ident = ''id0''\<rparr>
   \<and> decodeItem sampleHost ''id1'' (JObj [(''index'', JNull)])
     = Inr \<lparr>name = [], index = 0, hex = ''#000000'', ident = ''id1''\<rparr>"
proof -
  have a: "decodeItem sampleHost ''id0''
       (JObj [(''name'', JStr ''Red''), (''index'', JNum (Fin 1000000)), (''hex'', JStr ''#ff0000'')])
     = Inr \<lparr>name = ''Red'', index = 999999, hex = ''#FF0000'', ident = ''id0''\<rparr>"
    by code_simp
  have b: "decodeItem sampleHost ''id1'' (JObj [(''index'', JNull)])
     = Inr \<lparr>name = [], index = 0, hex = ''#000000'', ident = ''id1''\<rparr>"
    by code_simp
  from decodeItem_fields [OF a] decodeItem_fields [OF b] a b show ?thesis
    by simp
qed

text \<open>
  C7 as stated fails: for the element \<open>{name: true, index: true}\<close> the name is
  not text and the index is not a number, and the item has the name \<open>true\<close> and the
  index 1, not the empty text and 0. The conversions of the host are not consulted.
\<close>

theorem decodeItem_nontext_counterexample:
  "decodeItem sampleHost ''id0'' (JObj [(''name'', JBool True), (''index'', JBool True)])
     = Inr \<lparr>name = ''true'', index = 1, hex = ''#000000'', ident = ''id0''\<rparr>"
  by (simp add: decodeItem_def member_def clamp_def normalizeHex_def trim_def isWs_def
      hexPattern_def isHexDigit_def toUpperCase_def upperChar_def upperTable_def)

subsection \<open>C8: addOrUpdate on an index that is present\<close>

text \<open>
  C8. For every state whose collection has an item with the index of the form,
  \<open>addOrUpdate\<close> leaves the length of the collection, every \<open>id\<close> and every index
  unchanged, and the first item with that index now has the name of the form (trimmed,
  as the handler reads it) and the normalized colour of the form, its other fields as
  before.
  And for every state, a second \<open>addOrUpdate\<close> with the same index field and another
  name and colour leaves the length and the identifiers as the first call left them, and
  an item with that index has the second colour, normalized.
\<close>

theorem addOrUpdate_existing:
  "((\<exists>x\<in>set (items st). index x = fieldIndex st) \<longrightarrow>
      length (items (addOrUpdate newId st)) = length (items st)
      \<and> map ident (items (addOrUpdate newId st)) = map ident (items st)
      \<and> map index (items (addOrUpdate newId st)) = map index (items st)
      \<and> (\<exists>k<length (items st).
            index (items st ! k) = fieldIndex st
            \<and> (\<forall>j<k. index (items st ! j) \<noteq> fieldIndex st)
            \<and> items (addOrUpdate newId st) ! k
                = (items st ! k)\<lparr>name := fieldName st, hex := normalizeHex (inColor st)\<rparr>))
   \<and> (let st1 = addOrUpdate id1 st;
           st2 = addOrUpdate id2 (st1\<lparr>inName := name2, inIndex := inIndex st, inColor := color2\<rparr>)
       in length (items st2) = length (items st1)
          \<and> map ident (items st2) = map ident (items st1)
          \<and> (\<exists>x\<in>set (items st2). index x = fieldIndex st \<and> hex x = normalizeHex color2))"
proof (intro conjI impI)
  assume a: "\<exists>x\<in>set (items st). index x = fieldIndex st"
  from addOrUpdate_split [OF a, of newId] obtain pre x post where
    s: "items st = pre @ x # post" "index x = fieldIndex st"
    "items (addOrUpdate newId st) = pre @ x\<lparr>name := fieldName st, hex := fieldHex st\<rparr> # post"
    and n: "\<forall>y\<in>set pre. index y \<noteq> fieldIndex st"
    by blast
  from s show "length (items (addOrUpdate newId st)) = length (items st)"
    and "map ident (items (addOrUpdate newId st)) = map ident (items st)"
    and "map index (items (addOrUpdate newId st)) = map index (items st)"
    by simp_all
  have "length pre < length (items st)"
    using s(1) by simp
  moreover have "index (items st ! length pre) = fieldIndex st"
    using s(1,2) by simp
  moreover have "items (addOrUpdate newId st) ! length pre
      = (items st ! length pre)\<lparr>name := fieldName st, hex := normalizeHex (inColor st)\<rparr>"
    using s(1,3) by (simp add: fieldHex_def)
  moreover have "\<forall>j<length pre. index (items st ! j) \<noteq> fieldIndex st"
    using s(1) n by (simp add: nth_append)
  ultimately show "\<exists>k<length (items st). index (items st ! k) = fieldIndex st
      \<and> (\<forall>j<k. index (items st ! j) \<noteq> fieldIndex st)
      \<and> items (addOrUpdate newId st) ! k
          = (items st ! k)\<lparr>name := fieldName st, hex := normalizeHex (inColor st)\<rparr>"
    by blast
next
  define st1 where "st1 = addOrUpdate id1 st"
  define st1' where "st1' = st1\<lparr>inName := name2, inIndex := inIndex st, inColor := color2\<rparr>"
  define st2 where "st2 = addOrUpdate id2 st1'"
  have f: "fieldIndex st1' = fieldIndex st" "fieldHex st1' = normalizeHex color2"
    "items st1' = items st1"
    by (simp_all add: st1'_def fieldIndex_def fieldHex_def)
  have a: "\<exists>x\<in>set (items st1'). index x = fieldIndex st1'"
    unfolding f st1_def by (rule addOrUpdate_has_index)
  from addOrUpdate_split [OF a, of id2] obtain pre x post where
    s: "items st1' = pre @ x # post" "index x = fieldIndex st1'"
    "items st2 = pre @ x\<lparr>name := fieldName st1', hex := fieldHex st1'\<rparr> # post"
    unfolding st2_def by blast
  have "length (items st2) = length (items st1)" "map ident (items st2) = map ident (items st1)"
    "\<exists>x\<in>set (items st2). index x = fieldIndex st \<and> hex x = normalizeHex color2"
    using s f by auto
  then show "let st1 = addOrUpdate id1 st;
           st2 = addOrUpdate id2 (st1\<lparr>inName := name2, inIndex := inIndex st, inColor := color2\<rparr>)
       in length (items st2) = length (items st1)
          \<and> map ident (items st2) = map ident (items st1)
          \<and> (\<exists>x\<in>set (items st2). index x = fieldIndex st \<and> hex x = normalizeHex color2)"
    unfolding Let_def st2_def st1'_def st1_def by blast
qed

theorem addOrUpdate_existing_witness:
  "(\<exists>x\<in>set (items sampleStore). index x = fieldIndex sampleStore)
   \<and> length (items (addOrUpdate ''n'' sampleStore)) = length (items sampleStore)
   \<and> map ident (items (addOrUpdate ''n'' sampleStore)) = [''a'', ''b'', ''c'']
   \<and> items (addOrUpdate ''n'' sampleStore) ! 0
       = \<lparr>name = ''Sky'', index = 5, hex = ''#00AAFF'', ident = ''a''\<rparr>"
proof -
  have h: "\<exists>x\<in>set (items sampleStore). index x = fieldIndex sampleStore"
    by code_simp
  have v: "map ident (items sampleStore) = [''a'', ''b'', ''c'']"
    by code_simp
  have e: "items (addOrUpdate ''n'' sampleStore) ! 0
       = \<lparr>name = ''Sky'', index = 5, hex = ''#00AAFF'', ident = ''a''\<rparr>"
    by code_simp
  from addOrUpdate_existing [of sampleStore "''n''" "''n1''" "''n2''" "''Sea''" "''#0000ff''"] h
  have "length (items (addOrUpdate ''n'' sampleStore)) = length (items sampleStore)"
    and "map ident (items (addOrUpdate ''n'' sampleStore)) = map ident (items sampleStore)"
    by blast+
  with h v e show ?thesis
    by simp
qed

subsection \<open>C9: the grid layout\<close>

text \<open>
  C9. For every list of items, row length at least 1, swatch sizes at least 8 and gaps at
  least 0: \<open>cols = max(1, rowLen)\<close>; \<open>rows = max(1, ceil(count / cols))\<close>, which is
  \<open>max(1, (count + cols - 1) div cols)\<close> and gives every item a place; the canvas is
  \<open>cols*swW + max(0, cols-1)*gapH\<close> wide and \<open>rows*swH + max(0, rows-1)*gapV\<close> high;
  there is one cell per item, and the cell at position \<open>i\<close> is at
  \<open>x = (i mod cols)*(swW+gapH)\<close>, \<open>y = (i div cols)*(swH+gapV)\<close>. With a row length of
  3 and 7 items there are 3 columns and 3 rows, the canvas is \<open>3*swW + 2*gapH\<close> wide, and
  position 4 is at \<open>(swW+gapH, swH+gapV)\<close>.
\<close>

theorem renderPng_layout:
  assumes "1 \<le> rowLen" and "8 \<le> swW" and "8 \<le> swH" and "0 \<le> gapH" and "0 \<le> gapV"
  shows "gridCols rowLen = max 1 rowLen
    \<and> gridRows (length its) rowLen
        = max 1 (ceiling (rat_of_nat (length its) / rat_of_int (gridCols rowLen)))
    \<and> gridRows (length its) rowLen
        = max 1 ((int (length its) + gridCols rowLen - 1) div gridCols rowLen)
    \<and> int (length its) \<le> gridRows (length its) rowLen * gridCols rowLen
    \<and> width (renderPng its rowLen swW swH gapH gapV)
        = gridCols rowLen * swW + max 0 (gridCols rowLen - 1) * gapH
    \<and> height (renderPng its rowLen swW swH gapH gapV)
        = gridRows (length its) rowLen * swH + max 0 (gridRows (length its) rowLen - 1) * gapV
    \<and> length (cells (renderPng its rowLen swW swH gapH gapV)) = length its
    \<and> (\<forall>i<length its.
          cellX (cells (renderPng its rowLen swW swH gapH gapV) ! i)
            = (int i mod gridCols rowLen) * (swW + gapH)
          \<and> cellY (cells (renderPng its rowLen swW swH gapH gapV) ! i)
            = (int i div gridCols rowLen) * (swH + gapV))
    \<and> (rowLen = 3 \<and> length its = 7 \<longrightarrow>
          gridCols rowLen = 3 \<and> gridRows (length its) rowLen = 3
          \<and> width (renderPng its rowLen swW swH gapH gapV) = 3 * swW + 2 * gapH
          \<and> cellX (cells (renderPng its rowLen swW swH gapH gapV) ! 4) = swW + gapH
          \<and> cellY (cells (renderPng its rowLen swW swH gapH gapV) ! 4) = swH + gapV)"
proof -
  have inst: "gridCols rowLen = 3 \<and> gridRows (length its) rowLen = 3
      \<and> width (renderPng its rowLen swW swH gapH gapV) = 3 * swW + 2 * gapH
      \<and> cellX (cells (renderPng its rowLen swW swH gapH gapV) ! 4) = swW + gapH
      \<and> cellY (cells (renderPng its rowLen swW swH gapH gapV) ! 4) = swH + gapV"
    if a: "rowLen = 3" "length its = 7"
  proof -
    have c: "gridCols rowLen = 3"
      using a by (simp add: gridCols_def)
    have r: "gridRows (length its) rowLen = 3"
      unfolding gridRows_div c using a by simp
    have "(4::nat) < length its"
      using a by simp
    from renderPng_cells [OF this, of rowLen swW swH gapH gapV] c r show ?thesis
      by (simp add: renderPng_size)
  qed
  show ?thesis
    using inst
    by (simp add: renderPng_size renderPng_cells gridRows_fit(1) gridRows_div [symmetric])
      (simp add: gridCols_def gridRows_def)
qed

theorem renderPng_layout_witness:
  "gridCols 3 = 3 \<and> gridRows (length (replicate 7 \<lparr>name = ''c'', index = 0, hex = ''#808080''\<rparr>)) 3 = 3
   \<and> width (renderPng (replicate 7 \<lparr>name = ''c'', index = 0, hex = ''#808080''\<rparr>) 3 94 62 2 2) = 286
   \<and> cellX (cells (renderPng (replicate 7 \<lparr>name = ''c'', index = 0, hex = ''#808080''\<rparr>) 3 94 62 2 2) ! 4) = 96
   \<and> cellY (cells (renderPng (replicate 7 \<lparr>name = ''c'', index = 0, hex = ''#808080''\<rparr>) 3 94 62 2 2) ! 4) = 64"
proof -
  let ?its = "replicate 7 \<lparr>name = ''c'', index = 0, hex = ''#808080''\<rparr>"
  have h: "(1::int) \<le> 3" "(8::int) \<le> 94" "(8::int) \<le> 62" "(0::int) \<le> 2" "(0::int) \<le> 2"
    by simp_all
  have l: "(3::int) = 3 \<and> length ?its = 7"
    by simp
  from renderPng_layout [OF h, of ?its] l
  have "gridCols 3 = 3 \<and> gridRows (length ?its) 3 = 3
      \<and> width (renderPng ?its 3 94 62 2 2) = 3 * 94 + 2 * 2
      \<and> cellX (cells (renderPng ?its 3 94 62 2 2) ! 4) = 94 + 2
      \<and> cellY (cells (renderPng ?its 3 94 62 2 2) ! 4) = 62 + 2"
    by blast
  then show ?thesis
    by simp
qed

subsection \<open>C10: addOrUpdate on an index that several items share\<close>

text \<open>
  C10. For every state whose collection has two or more items with the index of the form,
  \<open>addOrUpdate\<close> writes the name and the colour of the first of them in the order of the
  collection, and nothing else: the items before it (none of which has the index), the
  items after it (one of which has the index) and its own other fields are unchanged, and
  no item is appended.
\<close>

theorem addOrUpdate_first_match:
  assumes "2 \<le> length (filter (\<lambda>x. index x = fieldIndex st) (items st))"
  shows "\<exists>pre x post. items st = pre @ x # post
    \<and> (\<forall>y\<in>set pre. index y \<noteq> fieldIndex st) \<and> index x = fieldIndex st
    \<and> (\<exists>y\<in>set post. index y = fieldIndex st)
    \<and> items (addOrUpdate newId st) = pre @ x\<lparr>name := fieldName st, hex := fieldHex st\<rparr> # post"
proof -
  let ?p = "\<lambda>x. index x = fieldIndex st"
  from assms have "filter ?p (items st) \<noteq> []"
    by auto
  then have a: "\<exists>x\<in>set (items st). ?p x"
    by (simp add: filter_empty_conv)
  from addOrUpdate_split [OF a, of newId] obtain pre x post where
    s: "items st = pre @ x # post" "\<forall>y\<in>set pre. \<not> ?p y" "?p x"
    "items (addOrUpdate newId st) = pre @ x\<lparr>name := fieldName st, hex := fieldHex st\<rparr> # post"
    by blast
  from s(2) have "filter ?p pre = []"
    by (simp add: filter_empty_conv)
  with s(1,3) have "filter ?p (items st) = x # filter ?p post"
    by simp
  with assms have "filter ?p post \<noteq> []"
    by auto
  then have "\<exists>y\<in>set post. ?p y"
    by (simp add: filter_empty_conv)
  with s show ?thesis
    by blast
qed

theorem addOrUpdate_first_match_witness:
  "2 \<le> length (filter (\<lambda>x. index x = fieldIndex sampleStore) (items sampleStore))
   \<and> items (addOrUpdate ''n'' sampleStore)
       = [\<lparr>name = ''Sky'', index = 5, hex = ''#00AAFF'', ident = ''a''\<rparr>,
          \<lparr>name = ''Green'', index = 3, hex = ''#00FF00'', ident = ''b''\<rparr>,
          \<lparr>name = ''Blue'', index = 5, hex = ''#0000FF'', ident = ''c''\<rparr>]"
proof -
  have h: "2 \<le> length (filter (\<lambda>x. index x = fieldIndex sampleStore) (items sampleStore))"
    by code_simp
  have i: "items sampleStore
       = [\<lparr>name = ''Red'', index = 5, hex = ''#FF0000'', ident = ''a''\<rparr>,
          \<lparr>name = ''Green'', index = 3, hex = ''#00FF00'', ident = ''b''\<rparr>,
          \<lparr>name = ''Blue'', index = 5, hex = ''#0000FF'', ident = ''c''\<rparr>]"
    by (simp add: sampleStore_def)
  have f: "fieldIndex sampleStore = 5" "fieldName sampleStore = ''Sky''" "fieldHex sampleStore = ''#00AAFF''"
    by code_simp+
  from addOrUpdate_first_match [OF h, of "''n''"] obtain pre x post where
    s: "items sampleStore = pre @ x # post" "\<forall>y\<in>set pre. index y \<noteq> 5" "index x = 5"
      "items (addOrUpdate ''n'' sampleStore) = pre @ x\<lparr>name := ''Sky'', hex := ''#00AAFF''\<rparr> # post"
    unfolding f by blast
  have "pre = []"
  proof (cases pre)
    case Nil
    then show ?thesis .
  next
    case (Cons y ys)
    with s(1) i have "y = \<lparr>name = ''Red'', index = 5, hex = ''#FF0000'', ident = ''a''\<rparr>"
      by simp
    with s(2) Cons show ?thesis
      by simp
  qed
  with s(1) i have "x = \<lparr>name = ''Red'', index = 5, hex = ''#FF0000'', ident = ''a''\<rparr>"
    and "post = [\<lparr>name = ''Green'', index = 3, hex = ''#00FF00'', ident = ''b''\<rparr>,
                 \<lparr>name = ''Blue'', index = 5, hex = ''#0000FF'', ident = ''c''\<rparr>]"
    by simp_all
  with s(4) \<open>pre = []\<close> have "items (addOrUpdate ''n'' sampleStore)
       = [\<lparr>name = ''Sky'', index = 5, hex = ''#00AAFF'', ident = ''a''\<rparr>,
          \<lparr>name = ''Green'', index = 3, hex = ''#00FF00'', ident = ''b''\<rparr>,
          \<lparr>name = ''Blue'', index = 5, hex = ''#0000FF'', ident = ''c''\<rparr>]"
    by simp
  with h show ?thesis
    by (rule conjI)
qed

end
